theory Spec2Isabelle
  imports Main "HOL-Library.Word"
begin

section \<open>Strings\<close>

text \<open>
  A JavaScript string is a sequence of UTF-16 code units. Regular expressions without the
  \<open>u\<close> flag, \<open>s[i]\<close>, \<open>length\<close> and \<open>split('')\<close> all work on code units, so a string is a
  list of 16-bit words.
\<close>

type_synonym jschar = "16 word"
type_synonym jsstring = "jschar list"

definition backtick :: jschar where
  "backtick = 0x60"

definition tilde :: jschar where
  "tilde = 0x7E"

definition newline :: jschar where
  "newline = 0x0A"

text \<open>
  The characters that \<open>String.prototype.trimStart\<close> strips and that the class \<open>\s\<close>
  matches: ECMAScript WhiteSpace and LineTerminator.
\<close>

definition isSpace :: "jschar \<Rightarrow> bool" where
  "isSpace c =
     (c = 0x09 \<or> c = 0x0A \<or> c = 0x0B \<or> c = 0x0C \<or> c = 0x0D \<or> c = 0x20 \<or>
      c = 0xA0 \<or> c = 0x1680 \<or> (0x2000 \<le> c \<and> c \<le> 0x200A) \<or> c = 0x2028 \<or>
      c = 0x2029 \<or> c = 0x202F \<or> c = 0x205F \<or> c = 0x3000 \<or> c = 0xFEFF)"

definition trimStart :: "jsstring \<Rightarrow> jsstring" where
  "trimStart s = dropWhile isSpace s"

section \<open>Live Preview helpers (furiganaLivePreviewMode.ts)\<close>

text \<open>
  \<open>AUTO_QUICK\<close> is the pattern of one character in the ranges U+3040-U+30FF,
  U+31F0-U+31FF, U+3400-U+4DBF and U+4E00-U+9FFF: the character
  class, and the test of a string against the unanchored pattern.
\<close>

definition isJapanese :: "jschar \<Rightarrow> bool" where
  "isJapanese c =
     (0x3040 \<le> c \<and> c \<le> 0x30FF \<or> 0x31F0 \<le> c \<and> c \<le> 0x31FF \<or>
      0x3400 \<le> c \<and> c \<le> 0x4DBF \<or> 0x4E00 \<le> c \<and> c \<le> 0x9FFF)"

definition AUTO_QUICK :: "jsstring \<Rightarrow> bool" where
  "AUTO_QUICK s = list_ex isJapanese s"

text \<open>
  \<open>lineTogglesFence\<close> tests the left-trimmed line against \<open>/^(```+|~~~+)(\s|$)/\<close>. The
  pattern has no \<open>m\<close> flag, so \<open>$\<close> is the end of the string. A run of the fence character
  that stops short of the maximal run is followed by the fence character itself, which is
  neither white space nor the end; so the pattern matches exactly when the maximal leading
  run has at least three characters and is followed by white space or by nothing.
\<close>

definition fenceRun :: "jschar \<Rightarrow> jsstring \<Rightarrow> bool" where
  "fenceRun c t =
     (3 \<le> length (takeWhile (\<lambda>x. x = c) t) \<and>
      (case dropWhile (\<lambda>x. x = c) t of [] \<Rightarrow> True | x # _ \<Rightarrow> isSpace x))"

definition lineTogglesFence :: "jsstring \<Rightarrow> bool" where
  "lineTogglesFence text_in = (let t = trimStart text_in in fenceRun backtick t \<or> fenceRun tilde t)"

text \<open>
  \<open>inlineBacktickRanges\<close>. The innermost loop
  \<open>while (i + runLen < len && s[i + runLen] === '`') runLen++\<close> is \<open>countRun\<close>; the search for
  the closing run is \<open>findClose\<close>, which returns \<open>closeStart\<close> (\<open>None\<close> for \<open>-1\<close>) and the
  index \<open>i\<close> at which the search stopped; the outer loop is \<open>scanLoop\<close>, returning the ranges
  in the order in which they are pushed.
\<close>

function countRun :: "jsstring \<Rightarrow> nat \<Rightarrow> nat \<Rightarrow> nat" where
  "countRun s i runLen =
     (if i + runLen < length s \<and> s ! (i + runLen) = backtick
      then countRun s i (runLen + 1) else runLen)"
  by pat_completeness auto
termination
  by (relation "measure (\<lambda>(s, i, runLen). length s - (i + runLen))") auto

declare countRun.simps [simp del]

lemma countRun_ge: "runLen \<le> countRun s i runLen"
proof (induction s i runLen rule: countRun.induct)
  case (1 s i runLen)
  show ?case
  proof (cases "i + runLen < length s \<and> s ! (i + runLen) = backtick")
    case True
    with 1 have "runLen + 1 \<le> countRun s i (runLen + 1)" by simp
    moreover from True have "countRun s i runLen = countRun s i (runLen + 1)"
      by (subst countRun.simps) simp
    ultimately show ?thesis by simp
  next
    case False
    then have "countRun s i runLen = runLen" by (subst countRun.simps) auto
    then show ?thesis by simp
  qed
qed

function findClose :: "jsstring \<Rightarrow> nat \<Rightarrow> nat \<Rightarrow> nat option \<times> nat" where
  "findClose s openerLen i =
     (if i < length s then
        (if s ! i = backtick then
           (let runLen = countRun s i 1 in
            if runLen = openerLen then (Some i, i + openerLen)
            else findClose s openerLen (i + runLen))
         else findClose s openerLen (i + 1))
      else (None, i))"
  by pat_completeness auto
termination
proof (relation "measure (\<lambda>(s, openerLen, i). length s - i)", goal_cases)
  case 1
  show ?case by simp
next
  case (2 s openerLen i runLen)
  have "1 \<le> countRun s i 1" by (rule countRun_ge)
  with 2 show ?case by simp
next
  case 3
  then show ?case by simp
qed

declare findClose.simps [simp del]

lemma findClose_ge: "i \<le> snd (findClose s n i)"
proof (induction s n i rule: findClose.induct)
  case (1 s openerLen i)
  show ?case
  proof (cases "i < length s")
    case False
    then show ?thesis by (subst findClose.simps) simp
  next
    case lt: True
    show ?thesis
    proof (cases "s ! i = backtick")
      case False
      with lt 1(2) have "i + 1 \<le> snd (findClose s openerLen (i + 1))" by simp
      moreover from lt False
      have "findClose s openerLen i = findClose s openerLen (i + 1)"
        by (subst findClose.simps) simp
      ultimately show ?thesis by simp
    next
      case bt: True
      show ?thesis
      proof (cases "countRun s i 1 = openerLen")
        case True
        with lt bt have "findClose s openerLen i = (Some i, i + openerLen)"
          by (subst findClose.simps) simp
        then show ?thesis by simp
      next
        case False
        with lt bt 1(1)
        have "i + countRun s i 1 \<le> snd (findClose s openerLen (i + countRun s i 1))"
          by simp
        moreover from lt bt False
        have "findClose s openerLen i = findClose s openerLen (i + countRun s i 1)"
          by (subst findClose.simps) simp
        ultimately show ?thesis by simp
      qed
    qed
  qed
qed

function scanLoop :: "jsstring \<Rightarrow> nat \<Rightarrow> (nat \<times> nat) list" where
  "scanLoop s i =
     (if i < length s then
        (if s ! i = backtick then
           (let openerLen = countRun s i 1;
                openerStart = i;
                r = findClose s openerLen (i + openerLen)
            in (case fst r of
                  Some closeStart \<Rightarrow> (openerStart, closeStart + openerLen) # scanLoop s (snd r)
                | None \<Rightarrow> scanLoop s (snd r)))
         else scanLoop s (i + 1))
      else [])"
  by pat_completeness auto
termination
proof (relation "measure (\<lambda>(s, i). length s - i)", goal_cases)
  case 1
  show ?case by simp
next
  case (2 s i openerLen openerStart r)
  have "1 \<le> countRun s i 1" by (rule countRun_ge)
  moreover have "i + openerLen \<le> snd (findClose s openerLen (i + openerLen))"
    by (rule findClose_ge)
  ultimately show ?case using 2 by simp
next
  case (3 s i openerLen openerStart r)
  have "1 \<le> countRun s i 1" by (rule countRun_ge)
  moreover have "i + openerLen \<le> snd (findClose s openerLen (i + openerLen))"
    by (rule findClose_ge)
  ultimately show ?case using 3 by simp
next
  case 4
  then show ?case by simp
qed

declare scanLoop.simps [simp del]

definition inlineBacktickRanges :: "jsstring \<Rightarrow> (nat \<times> nat) list" where
  "inlineBacktickRanges lineText = scanLoop lineText 0"

text \<open>Half-open interval overlap, and the zone around a caret position.\<close>

definition overlaps :: "int \<Rightarrow> int \<Rightarrow> int \<Rightarrow> int \<Rightarrow> bool" where
  "overlaps aFrom aTo bFrom bTo = (aFrom < bTo \<and> bFrom < aTo)"

definition caretBuffer :: "int \<Rightarrow> int \<Rightarrow> int \<times> int" where
  "caretBuffer pos size_in = (pos - size_in, pos + size_in)"

section \<open>Settings and the two regular expressions\<close>

text \<open>
  \<open>NotationStyle\<close> is imported from \<open>regex.ts\<close>; its three values are the ones the settings tab
  offers (\<open>'curly'\<close>, \<open>'square'\<close>, \<open>'none'\<close>).
\<close>

datatype NotationStyle = Curly | Square | NoneStyle

record PluginSettings =
  readingMode :: bool
  editingMode :: bool
  notationStyle :: NotationStyle

text \<open>
  The callers use a regular expression only through \<open>text.matchAll\<close> and \<open>test\<close>, so a regular
  expression is taken as the function that maps a string to its matches in order, each
  match given by \<open>m.index\<close> and \<open>m[0]\<close>. \<open>re.test(s)\<close> holds when there is a match.
\<close>

type_synonym matcher = "jsstring \<Rightarrow> (nat \<times> jsstring) list"

definition regexTest :: "matcher \<Rightarrow> jsstring \<Rightarrow> bool" where
  "regexTest re s = (re s \<noteq> [])"

section \<open>The editor state read by the decoration builder\<close>

text \<open>
  The CodeMirror document is kept as its list of lines (a document always has at least one
  line; consecutive lines are separated by one line break). A \<open>Line\<close> object has the fields
  \<open>number\<close> (from 1), \<open>from\<close>, \<open>to\<close> and \<open>text\<close>. \<open>doc.line(n)\<close> and \<open>doc.lineAt(pos)\<close> throw a
  \<open>RangeError\<close> outside the document, and \<open>RangeSetBuilder.add\<close> throws an \<open>Error\<close> when a
  range comes out of order (\<open>Ranges must be added sorted by `from` position and
  `startSide`\<close>); these are the two exceptions that the decoration builder can meet.
\<close>

datatype error = RangeError | UnsortedRanges

record Line =
  l_number :: nat
  l_from :: nat
  l_to :: nat
  l_text :: jsstring

record SelectionRange =
  anchor :: nat
  head :: nat

record EditorView =
  doc :: "jsstring list"
  viewport_from :: nat
  viewport_to :: nat
  selection_ranges :: "SelectionRange list"
  composing :: bool

definition lineStart :: "jsstring list \<Rightarrow> nat \<Rightarrow> nat" where
  "lineStart d n = sum_list (map (\<lambda>t. length t + 1) (take (n - 1) d))"

definition mkLine :: "jsstring list \<Rightarrow> nat \<Rightarrow> Line" where
  "mkLine d n =
     \<lparr>l_number = n, l_from = lineStart d n,
      l_to = lineStart d n + length (d ! (n - 1)), l_text = d ! (n - 1)\<rparr>"

definition docLine :: "jsstring list \<Rightarrow> nat \<Rightarrow> Line option" where
  "docLine d n = (if 1 \<le> n \<and> n \<le> length d then Some (mkLine d n) else None)"

definition docLength :: "jsstring list \<Rightarrow> nat" where
  "docLength d = sum_list (map length d) + (length d - 1)"

definition lineAt :: "jsstring list \<Rightarrow> nat \<Rightarrow> Line option" where
  "lineAt d pos =
     (if pos \<le> docLength d
      then find (\<lambda>l. pos \<le> l_to l) (map (mkLine d) [1..<Suc (length d)])
      else None)"

fun docToString :: "jsstring list \<Rightarrow> jsstring" where
  "docToString [] = []"
| "docToString [t] = t"
| "docToString (t # ts) = t @ newline # docToString ts"

section \<open>Decoration computation (buildDecorations)\<close>

text \<open>
  A decoration is the triple handed to \<open>builder.add\<close>: the span and the source text of its
  \<open>RubyWidget\<close>. Every decoration of the builder is made by \<open>Decoration.replace\<close> with
  \<open>inclusive: false\<close>, so all have the same \<open>startSide\<close>, and an \<open>endSide\<close> below it.
\<close>

record Decoration =
  d_from :: nat
  d_to :: nat
  widget_text :: jsstring

text \<open>
  \<open>RangeSetBuilder\<close> of CodeMirror keeps layers: the ranges of one layer are in ascending
  order and do not overlap, and a range that starts inside the last range of a layer is
  handed to the next layer (\<open>nextLayer\<close>, created on demand). With \<open>lastFrom\<close> and
  \<open>lastTo\<close> the ends of the last range of the layer, \<open>addInner\<close> reads

  \<^item> \<open>diff = from - this.lastTo || value.startSide - this.last.endSide\<close>;
  \<^item> \<open>if (diff <= 0 && (from - this.lastFrom || value.startSide - this.last.startSide) < 0)
     throw new Error(...)\<close>;
  \<^item> \<open>if (diff < 0) return false\<close>, upon which \<open>add\<close> calls \<open>add\<close> of the next layer;
  \<^item> otherwise the range is pushed and becomes the last one.

  For the decorations of this builder \<open>startSide - last.endSide\<close> is positive and
  \<open>startSide - last.startSide\<close> is zero, so \<open>diff <= 0\<close> and \<open>diff < 0\<close> both mean
  \<open>from < lastTo\<close>, and the second test of the \<open>throw\<close> means \<open>from < lastFrom\<close>. A layer
  without range has \<open>lastFrom = lastTo = -1e9\<close> and accepts every range. The builder is the
  list of its layers, the first layer first, each layer the list of its ranges in the order
  in which they were pushed; a new builder has none.
\<close>

fun builderAdd :: "Decoration \<Rightarrow> Decoration list list \<Rightarrow> error + Decoration list list" where
  "builderAdd dec [] = Inr [[dec]]"
| "builderAdd dec (layer # nextLayer) =
     (if layer = [] then Inr ([dec] # nextLayer)
      else
        let lastFrom = d_from (last layer); lastTo = d_to (last layer) in
        if d_from dec < lastTo \<and> d_from dec < lastFrom then Inl UnsortedRanges
        else if d_from dec < lastTo
        then (case builderAdd dec nextLayer of
                Inl e \<Rightarrow> Inl e
              | Inr layers \<Rightarrow> Inr (layer # layers))
        else Inr ((layer @ [dec]) # nextLayer))"

text \<open>
  \<open>builder.finish()\<close> gives the \<open>RangeSet\<close> of all layers. A decoration set is kept as the
  list of its ranges in the order in which the set is iterated: the cursors of the layers
  are merged by ascending \<open>from\<close>, then (the sides being equal) by ascending \<open>to\<close>.
\<close>

fun mergeLayers :: "Decoration list \<Rightarrow> Decoration list \<Rightarrow> Decoration list" where
  "mergeLayers [] ys = ys"
| "mergeLayers (x # xs) [] = x # xs"
| "mergeLayers (x # xs) (y # ys) =
     (if d_from x < d_from y \<or> (d_from x = d_from y \<and> d_to x \<le> d_to y)
      then x # mergeLayers xs (y # ys)
      else y # mergeLayers (x # xs) ys)"

definition finish :: "Decoration list list \<Rightarrow> Decoration list" where
  "finish layers = foldr mergeLayers layers []"

definition hitsCode :: "(nat \<times> nat) list \<Rightarrow> nat \<Rightarrow> nat \<Rightarrow> bool" where
  "hitsCode codeSpans fromRel toRel =
     list_ex (\<lambda>(a, b). overlaps (int fromRel) (int toRel) (int a) (int b)) codeSpans"

definition hitsNoDecor :: "(int \<times> int) list \<Rightarrow> nat \<Rightarrow> nat \<Rightarrow> bool" where
  "hitsNoDecor noDecor absFrom absTo =
     list_ex (\<lambda>(a, b). overlaps (int absFrom) (int absTo) a b) noDecor"

text \<open>
  The body shared by the two \<open>for (const m of text.matchAll(...))\<close> loops: every \<open>continue\<close>
  is a branch that leaves the builder as it is, and an exception of \<open>builder.add\<close> ends the
  loop.
\<close>

fun addMatches ::
  "(nat \<times> nat) list \<Rightarrow> (int \<times> int) list \<Rightarrow> nat \<Rightarrow> (nat \<times> jsstring) list \<Rightarrow>
   Decoration list list \<Rightarrow> error + Decoration list list" where
  "addMatches codeSpans noDecor lineFrom [] builder = Inr builder"
| "addMatches codeSpans noDecor lineFrom ((index, m0) # ms) builder =
     (if m0 = [] then addMatches codeSpans noDecor lineFrom ms builder
      else
        let relFrom = index; relTo = relFrom + length m0 in
        if hitsCode codeSpans relFrom relTo then addMatches codeSpans noDecor lineFrom ms builder
        else
          let absFrom = lineFrom + relFrom; absTo = lineFrom + relTo in
          if hitsNoDecor noDecor absFrom absTo
          then addMatches codeSpans noDecor lineFrom ms builder
          else (case builderAdd \<lparr>d_from = absFrom, d_to = absTo, widget_text = m0\<rparr> builder of
                  Inl e \<Rightarrow> Inl e
                | Inr builder1 \<Rightarrow> addMatches codeSpans noDecor lineFrom ms builder1))"

text \<open>
  The part of the loop body guarded by \<open>!insideFence && AUTO_QUICK.test(text)\<close>: manual
  overrides first, then the automatic matches of the same line.
\<close>

definition decorateLine ::
  "matcher \<Rightarrow> matcher \<Rightarrow> (int \<times> int) list \<Rightarrow> Line \<Rightarrow> Decoration list list \<Rightarrow>
   error + Decoration list list" where
  "decorateLine REGEX_MANUAL REGEX_AUTOMATIC noDecor line builder =
     (let codeSpans = inlineBacktickRanges (l_text line) in
      case addMatches codeSpans noDecor (l_from line) (REGEX_MANUAL (l_text line)) builder of
        Inl e \<Rightarrow> Inl e
      | Inr builder1 \<Rightarrow>
          addMatches codeSpans noDecor (l_from line) (REGEX_AUTOMATIC (l_text line)) builder1)"

text \<open>The loop \<open>while (line.from <= visTo)\<close> over the visible lines.\<close>

function walk ::
  "matcher \<Rightarrow> matcher \<Rightarrow> (int \<times> int) list \<Rightarrow> jsstring list \<Rightarrow> nat \<Rightarrow>
   Line \<Rightarrow> bool \<Rightarrow> Decoration list list \<Rightarrow> error + Decoration list list" where
  "walk REGEX_MANUAL REGEX_AUTOMATIC noDecor d visTo line insideFence builder =
     (if l_from line \<le> visTo then
        (let insideFence1 = (if lineTogglesFence (l_text line) then \<not> insideFence else insideFence)
         in case (if \<not> insideFence1 \<and> AUTO_QUICK (l_text line)
                  then decorateLine REGEX_MANUAL REGEX_AUTOMATIC noDecor line builder
                  else Inr builder) of
              Inl e \<Rightarrow> Inl e
            | Inr builder1 \<Rightarrow>
                if l_to line \<ge> visTo then Inr builder1
                else (case docLine d (l_number line + 1) of
                        None \<Rightarrow> Inl RangeError
                      | Some line1 \<Rightarrow>
                          walk REGEX_MANUAL REGEX_AUTOMATIC noDecor d visTo line1 insideFence1
                            builder1))
      else Inr builder)"
  by pat_completeness auto
termination
proof (relation "measure (\<lambda>(rm, ra, nd, d, visTo, line, inside, b). Suc (length d) - l_number line)",
    goal_cases)
  case 1
  show ?case by simp
next
  case (2 rm ra nd d visTo line inside b inside1 b1 line1)
  then show ?case by (auto simp: docLine_def mkLine_def split: if_splits)
qed

declare walk.simps [simp del]

text \<open>
  The bootstrap loop \<open>for (let n = 1; n < firstVisibleLine; n++)\<close>, over the list of the
  values that \<open>n\<close> takes.
\<close>

fun bootstrapFence :: "jsstring list \<Rightarrow> nat list \<Rightarrow> bool \<Rightarrow> error + bool" where
  "bootstrapFence d [] insideFence = Inr insideFence"
| "bootstrapFence d (n # ns) insideFence =
     (case docLine d n of
        None \<Rightarrow> Inl RangeError
      | Some line \<Rightarrow>
          bootstrapFence d ns
            (if lineTogglesFence (l_text line) then \<not> insideFence else insideFence))"

text \<open>
  The zones around the selection end points:
  \<open>caretBuffer(r.anchor, view.composing ? 2 : 1)\<close> and the same for \<open>r.head\<close>, each pushed as
  \<open>[Math.min(a1, a2), Math.max(a1, a2)]\<close>.
\<close>

fun noDecorZones :: "bool \<Rightarrow> SelectionRange list \<Rightarrow> (int \<times> int) list" where
  "noDecorZones composing_now [] = []"
| "noDecorZones composing_now (r # rs) =
     (let (a1, a2) = caretBuffer (int (anchor r)) (if composing_now then 2 else 1);
          (h1, h2) = caretBuffer (int (head r)) (if composing_now then 2 else 1)
      in (min a1 a2, max a1 a2) # (min h1 h2, max h1 h2) # noDecorZones composing_now rs)"

text \<open>
  \<open>buildDecorations(view, style)\<close>. The functions \<open>getManualRegex\<close> and \<open>getAutoRegex\<close> are
  imported from \<open>regex.ts\<close>, which is not among the sources, so the builder takes them as
  its first two parameters. The result is the decoration set, or the exception that ended
  the call.
\<close>

definition buildDecorations ::
  "(NotationStyle \<Rightarrow> matcher) \<Rightarrow> matcher \<Rightarrow> EditorView \<Rightarrow> NotationStyle \<Rightarrow>
   error + Decoration list" where
  "buildDecorations getManualRegex getAutoRegex view style =
     (if \<not> AUTO_QUICK (docToString (doc view)) then Inr (finish [])
      else
        (case lineAt (doc view) (viewport_from view) of
           None \<Rightarrow> Inl RangeError
         | Some firstLine \<Rightarrow>
             (let firstVisibleLine = l_number firstLine in
              case bootstrapFence (doc view) [1..<firstVisibleLine] False of
                Inl e \<Rightarrow> Inl e
              | Inr insideFence \<Rightarrow>
                  (let noDecor = noDecorZones (composing view) (selection_ranges view);
                       REGEX_MANUAL = getManualRegex style;
                       REGEX_AUTOMATIC = getAutoRegex
                   in case docLine (doc view) firstVisibleLine of
                     None \<Rightarrow> Inl RangeError
                   | Some line \<Rightarrow>
                       (case walk REGEX_MANUAL REGEX_AUTOMATIC noDecor (doc view)
                               (viewport_to view) line insideFence [] of
                          Inl e \<Rightarrow> Inl e
                        | Inr builder \<Rightarrow> Inr (finish builder))))))"

section \<open>The view plugin\<close>

text \<open>
  An \<open>EditorView\<close> is a mutable object: the plugin instance keeps a reference to it in
  \<open>this.view\<close>, and every \<open>ViewUpdate\<close> carries a reference in \<open>u.view\<close>. References are
  addresses in a store that holds the current state of each view, so that a read of
  \<open>this.view.composing\<close> or \<open>u.view.composing\<close> during \<open>update\<close> is a read of the store at the
  time of the call. A transaction is kept as its \<open>userEvent\<close> annotation.
\<close>

type_synonym view_ref = nat

type_synonym view_store = "view_ref \<Rightarrow> EditorView"

record ViewUpdate =
  u_view :: view_ref
  docChanged :: bool
  selectionSet :: bool
  viewportChanged :: bool
  transactions :: "string option list"

record PluginValue =
  p_view :: view_ref
  decorations :: "Decoration list"

definition isUserEvent :: "string option \<Rightarrow> string \<Rightarrow> bool" where
  "isUserEvent t event =
     (case t of
        None \<Rightarrow> False
      | Some e \<Rightarrow>
          e \<noteq> [] \<and>
          (e = event \<or>
           (length event < length e \<and> take (length event) e = event \<and>
            e ! length event = CHR ''.'')))"

text \<open>
  The constructor and \<open>update\<close> of the class given to \<open>ViewPlugin.fromClass\<close>. Neither
  catches anything: an exception of \<open>buildDecorations\<close> leaves the constructor or \<open>update\<close>,
  and no plugin value results.
\<close>

definition pluginCreate ::
  "(NotationStyle \<Rightarrow> matcher) \<Rightarrow> matcher \<Rightarrow> NotationStyle \<Rightarrow> view_store \<Rightarrow> view_ref \<Rightarrow>
   error + PluginValue" where
  "pluginCreate getManualRegex getAutoRegex notationStyle_in store view_in =
     (case buildDecorations getManualRegex getAutoRegex (store view_in) notationStyle_in of
        Inl e \<Rightarrow> Inl e
      | Inr ds \<Rightarrow> Inr \<lparr>p_view = view_in, decorations = ds\<rparr>)"

definition pluginUpdate ::
  "(NotationStyle \<Rightarrow> matcher) \<Rightarrow> matcher \<Rightarrow> NotationStyle \<Rightarrow> view_store \<Rightarrow> PluginValue \<Rightarrow>
   ViewUpdate \<Rightarrow> error + PluginValue" where
  "pluginUpdate getManualRegex getAutoRegex notationStyle_in store this u =
     (if docChanged u \<or> selectionSet u \<or> viewportChanged u \<or>
         list_ex (\<lambda>t. isUserEvent t ''input'' \<or> isUserEvent t ''delete'') (transactions u) \<or>
         composing (store (u_view u)) \<noteq> composing (store (p_view this))
      then
        (case buildDecorations getManualRegex getAutoRegex (store (p_view this)) notationStyle_in of
           Inl e \<Rightarrow> Inl e
         | Inr ds \<Rightarrow> Inr (this\<lparr>decorations := ds\<rparr>))
      else Inr this)"

section \<open>The ruby widget\<close>

text \<open>
  A DOM node is a text node, an element (its tag name in lower case, as
  \<open>tagName.toLowerCase()\<close> gives it, and its child nodes) or a node of another kind.
  A segment is what \<open>getFuriganaSegmentsSync\<close> returns for each chunk: the arrays \<open>kanji\<close>
  and \<open>furi\<close>.
\<close>

datatype Node = TextNode jsstring | Element string "Node list" | OtherNode

record Segment =
  kanji :: "jsstring list"
  furi :: "jsstring list"

text \<open>
  The test of each \<open>k\<close> in \<open>seg.kanji\<close> by \<open>RubyWidget.toDOM\<close>, a pattern \<open>/^[...]+$/\<close> over a class:
  the class is U+3040-U+30FF, which contains the prolonged sound mark U+30FC.
\<close>

definition isKana :: "jschar \<Rightarrow> bool" where
  "isKana c = (0x3040 \<le> c \<and> c \<le> 0x30FF)"

definition kanaOnly :: "jsstring \<Rightarrow> bool" where
  "kanaOnly k = (k \<noteq> [] \<and> list_all isKana k)"

text \<open>
  Modelled from the spec: the children that \<open>makeRuby\<close> of \<open>furiganaUtils.ts\<close>, absent from
  the sources, gives its element: each base chunk becomes one base-text node followed by
  one reading-text node (the header of \<open>furiganaLivePreviewMode.ts\<close> names the pairs \<open>rb\<close>
  and \<open>rt\<close>).
\<close>

fun rubyPairs :: "jsstring list \<Rightarrow> jsstring list \<Rightarrow> Node list" where
  "rubyPairs [] fs = []"
| "rubyPairs (k # ks) fs =
     Element ''rb'' [TextNode k] #
     Element ''rt'' [TextNode (case fs of [] \<Rightarrow> [] | f # _ \<Rightarrow> f)] #
     rubyPairs ks (tl fs)"

text \<open>
  Modelled from the spec: \<open>makeRuby(kanji, furi)\<close> of \<open>furiganaUtils.ts\<close>, absent from the
  sources: the \<open>ruby\<close> element around the pairs.
\<close>

definition makeRuby :: "jsstring list \<Rightarrow> jsstring list \<Rightarrow> Node" where
  "makeRuby ks fs = Element ''ruby'' (rubyPairs ks fs)"

text \<open>
  \<open>RubyWidget.toDOM\<close>: the body of the loop \<open>for (const seg of segs)\<close>, and the method. The
  function \<open>getFuriganaSegmentsSync\<close> is imported from \<open>furiganaUtils.ts\<close> and is a parameter.
\<close>

definition appendSegment :: "Segment \<Rightarrow> Node list \<Rightarrow> Node list" where
  "appendSegment seg children =
     (let allKana = list_all kanaOnly (kanji seg) in
      if allKana then children @ [TextNode (concat (kanji seg))]
      else children @ [makeRuby (kanji seg) (furi seg)])"

definition toDOM :: "(jsstring \<Rightarrow> Segment list) \<Rightarrow> jsstring \<Rightarrow> Node" where
  "toDOM getFuriganaSegmentsSync text_in =
     (let segs = getFuriganaSegmentsSync text_in
      in Element ''span'' (fold appendSegment segs []))"


fun childNodes :: "Node \<Rightarrow> Node list" where
  "childNodes (Element tag children) = children"
| "childNodes _ = []"

section \<open>The per-document skip flag (skipOption.ts)\<close>

text \<open>
  A frontmatter value is a YAML scalar or something else. The metadata cache maps a path to
  the frontmatter of its file, when the file is cached and has one. A workspace leaf
  names the editor it shows and the path of its file.
\<close>

datatype FmValue = FmBool bool | FmString string | FmNumber int | FmOther

record Leaf =
  leaf_cm :: "view_ref option"
  leaf_path :: "string option"

record App =
  frontmatterOf :: "string \<Rightarrow> (string \<Rightarrow> FmValue option) option"
  leaves :: "Leaf list"

definition KEY :: string where
  "KEY = ''auto-furigana''"

definition OFF :: "FmValue \<Rightarrow> bool" where
  "OFF v = (v = FmBool False \<or> v = FmString ''false'' \<or> v = FmString ''off'' \<or>
            v = FmString ''disabled'')"

definition shouldSkipByPath :: "App \<Rightarrow> string \<Rightarrow> bool" where
  "shouldSkipByPath app path =
     (case frontmatterOf app path of
        None \<Rightarrow> False
      | Some fm \<Rightarrow> (case fm KEY of None \<Rightarrow> False | Some v \<Rightarrow> OFF v))"

fun editorViewToPath_loop :: "Leaf list \<Rightarrow> view_ref \<Rightarrow> string option \<Rightarrow> string option" where
  "editorViewToPath_loop [] ev out = out"
| "editorViewToPath_loop (leaf # ls) ev out =
     editorViewToPath_loop ls ev (if leaf_cm leaf = Some ev then leaf_path leaf else out)"

definition editorViewToPath :: "App \<Rightarrow> view_ref \<Rightarrow> string option" where
  "editorViewToPath app ev = editorViewToPath_loop (leaves app) ev None"

definition shouldSkipForEditorView :: "App \<Rightarrow> view_ref \<Rightarrow> bool" where
  "shouldSkipForEditorView app ev =
     (case editorViewToPath app ev of
        None \<Rightarrow> False
      | Some p \<Rightarrow> if p = [] then False else shouldSkipByPath app p)"

section \<open>The Reading Mode postprocessor\<close>

definition TAGS :: "string list" where
  "TAGS = [''p'', ''h1'', ''h2'', ''h3'', ''h4'', ''h5'', ''h6'', ''ol'', ''ul'', ''table'']"

definition isSkippableElement :: "string \<Rightarrow> bool" where
  "isSkippableElement tag =
     (tag = ''code'' \<or> tag = ''pre'' \<or> tag = ''script'' \<or> tag = ''style'' \<or> tag = ''ruby'')"

text \<open>
  \<open>collectTextNodes(root, out)\<close>. A node reference determines the chain of its ancestors,
  which \<open>el.closest('ruby')\<close> walks; the function therefore carries the tags of the proper
  ancestors of \<open>root\<close> (nearest first), and a collected text node is recorded with the tags
  of its ancestors and its value. \<open>v.trim().length > 0\<close> holds when \<open>v\<close> has a character
  that is not white space.
\<close>

fun collectTextNodes ::
  "string list \<Rightarrow> Node \<Rightarrow> (string list \<times> jsstring) list \<Rightarrow> (string list \<times> jsstring) list" where
  "collectTextNodes anc (TextNode v) out =
     (if list_ex (\<lambda>c. \<not> isSpace c) v then out @ [(anc, v)] else out)"
| "collectTextNodes anc OtherNode out = out"
| "collectTextNodes anc (Element tag children) out =
     (if isSkippableElement tag then out
      else if tag = ''ruby'' \<or> ''ruby'' \<in> set anc then out
      else fold (collectTextNodes (tag # anc)) children out)"

text \<open>
  \<open>el.querySelectorAll(TAGS)\<close>: the descendant elements of \<open>el\<close> with one of the tags, in
  document order, each with the tags of its ancestors. \<open>blk.textContent\<close> is the text of all
  descendant text nodes.
\<close>

fun querySelectorAll :: "string list \<Rightarrow> Node \<Rightarrow> (string list \<times> Node) list" where
  "querySelectorAll anc (Element tag children) =
     concat (map (\<lambda>c. (case c of
                          Element t _ \<Rightarrow> if t \<in> set TAGS then [(tag # anc, c)] else []
                        | _ \<Rightarrow> []) @ querySelectorAll (tag # anc) c) children)"
| "querySelectorAll anc (TextNode v) = []"
| "querySelectorAll anc OtherNode = []"

fun textContent :: "Node \<Rightarrow> jsstring" where
  "textContent (TextNode v) = v"
| "textContent (Element tag children) = concat (map textContent children)"
| "textContent OtherNode = []"

text \<open>
  \<open>processBlock\<close> hands every text node it collects to \<open>convertFurigana\<close> (of
  \<open>furiganaUtils.ts\<close>) and replaces it by the result. The postprocessor is modelled by the
  text nodes handed over: for each selected block, the nodes \<open>collectTextNodes\<close> gives on
  the DOM that the postprocessor receives, \<open>el\<close> being the root of that DOM. (A block
  nested in an earlier block is scanned by the source after the earlier block's
  replacements; the properties below are stated for \<open>collectTextNodes\<close> on any DOM.)
\<close>

definition processBlock :: "matcher \<Rightarrow> string list \<times> Node \<Rightarrow> (string list \<times> jsstring) list" where
  "processBlock autoQuick blk =
     (if \<not> regexTest autoQuick (textContent (snd blk)) then []
      else collectTextNodes (fst blk) (snd blk) [])"

definition readingModePostprocessor ::
  "matcher \<Rightarrow> App \<Rightarrow> PluginSettings \<Rightarrow> Node \<Rightarrow> string \<Rightarrow> (string list \<times> jsstring) list" where
  "readingModePostprocessor getAutoRegex app settings el sourcePath =
     (if \<not> readingMode settings then []
      else if shouldSkipByPath app sourcePath then []
      else
        (let blocks = querySelectorAll [] el in
         if blocks = [] then []
         else concat (map (processBlock getAutoRegex) blocks)))"

section \<open>The parts of regex.ts and furiganaUtils.ts that the claims need\<close>

text \<open>
  Neither file is among the sources. What follows is written from the specification
  (sections 3, 4.1, 4.2 and 4.4) and from the examples of the README.
\<close>

text \<open>
  Modelled from the spec: the delimiter of the manual-override notation, absent from the
  sources with \<open>regex.ts\<close>: the pipe between the base and the readings.
\<close>

definition pipe :: jschar where
  "pipe = 0x7C"

text \<open>
  Modelled from the spec: the opening bracket of each notation style, absent from the
  sources with \<open>regex.ts\<close>: a brace for \<open>curly\<close>, a square bracket for \<open>square\<close>, none
  when manual overrides are disabled.
\<close>

fun openBracket :: "NotationStyle \<Rightarrow> jschar option" where
  "openBracket Curly = Some 0x7B"
| "openBracket Square = Some 0x5B"
| "openBracket NoneStyle = None"

text \<open>
  Modelled from the spec: the closing bracket of each notation style, absent from the
  sources with \<open>regex.ts\<close>.
\<close>

fun closeBracket :: "NotationStyle \<Rightarrow> jschar option" where
  "closeBracket Curly = Some 0x7D"
| "closeBracket Square = Some 0x5D"
| "closeBracket NoneStyle = None"

text \<open>
  Modelled from the spec: the characters that cannot stand in a base, absent from the
  sources with \<open>regex.ts\<close>: the pipe and the brackets of either style.
\<close>

definition isDelimiter :: "jschar \<Rightarrow> bool" where
  "isDelimiter c = (c = pipe \<or> c = 0x7B \<or> c = 0x7D \<or> c = 0x5B \<or> c = 0x5D)"

text \<open>
  Modelled from the spec: the reading part of a manual-override span, absent from the
  sources with \<open>regex.ts\<close>: one or more pipe-separated reading segments, each made of
  phonetic characters only. The function reads the segments at the head of a string and
  returns them with the rest of the string.
\<close>

function readingSegments :: "jsstring \<Rightarrow> jsstring list \<times> jsstring" where
  "readingSegments [] = ([], [])"
| "readingSegments (c # cs) =
     (if c = pipe
      then (let r = readingSegments (dropWhile isKana cs)
            in (takeWhile isKana cs # fst r, snd r))
      else ([], c # cs))"
  by pat_completeness auto
termination
  by (relation "measure length") (auto simp: length_dropWhile_le le_imp_less_Suc)

text \<open>
  Modelled from the spec: the invariant of a ManualMatch (section 3), absent from the
  sources with \<open>furiganaUtils.ts\<close>: a base of one or more characters, one or more reading
  segments, and, when there is more than one segment, as many segments as the base has
  characters.
\<close>

definition validManual :: "jsstring \<Rightarrow> jsstring list \<Rightarrow> bool" where
  "validManual base rs = (base \<noteq> [] \<and> rs \<noteq> [] \<and> (length rs = 1 \<or> length rs = length base))"

text \<open>
  Modelled from the spec: the length of the span of a ManualMatch, absent from the sources
  with \<open>regex.ts\<close>: the two brackets, the base, and each reading with the pipe before it.
\<close>

definition spanLength :: "jsstring \<Rightarrow> jsstring list \<Rightarrow> nat" where
  "spanLength base rs = 1 + length base + sum_list (map (\<lambda>r. 1 + length r) rs) + 1"

text \<open>
  Modelled from the spec: the Notation Parser at one position (section 4.1), absent from the
  sources with \<open>regex.ts\<close>: the opening bracket of the style, the base, the reading
  segments and the closing bracket; a span that breaks the invariant, or whose readings hold
  a character that is not phonetic, is not a match, and the style \<open>none\<close> has no match.
\<close>

definition manualAt :: "NotationStyle \<Rightarrow> jsstring \<Rightarrow> (jsstring \<times> jsstring list) option" where
  "manualAt style s =
     (case (openBracket style, closeBracket style, s) of
        (Some ob, Some cb, c # cs) \<Rightarrow>
          if c = ob then
            (let base = takeWhile (\<lambda>x. \<not> isDelimiter x) cs;
                 r = readingSegments (dropWhile (\<lambda>x. \<not> isDelimiter x) cs)
             in (case snd r of
                   e # _ \<Rightarrow> if e = cb \<and> validManual base (fst r) then Some (base, fst r) else None
                 | [] \<Rightarrow> None))
          else None
      | _ \<Rightarrow> None)"

text \<open>
  Modelled from the spec: the scan behind \<open>getManualRegex\<close> of \<open>regex.ts\<close>, absent from the
  sources: the manual matches of a text unit, leftmost first and without overlap (once a
  span is consumed, scanning resumes after its end).
\<close>

function manualScan :: "NotationStyle \<Rightarrow> nat \<Rightarrow> jsstring \<Rightarrow> (nat \<times> jsstring) list" where
  "manualScan style i [] = []"
| "manualScan style i (c # cs) =
     (case manualAt style (c # cs) of
        Some (base, rs) \<Rightarrow>
          (i, take (spanLength base rs) (c # cs)) #
            manualScan style (i + spanLength base rs) (drop (spanLength base rs) (c # cs))
      | None \<Rightarrow> manualScan style (i + 1) cs)"
  by pat_completeness auto
termination
  by (relation "measure (\<lambda>(style, i, s). length s)") (auto simp: spanLength_def)

text \<open>
  Modelled from the spec: \<open>getManualRegex(style)\<close> of \<open>regex.ts\<close>, absent from the sources, as
  a matcher: the scan of the text unit from its start.
\<close>

definition getManualRegex :: "NotationStyle \<Rightarrow> matcher" where
  "getManualRegex style text_in = manualScan style 0 text_in"

text \<open>
  Modelled from the spec: the scan behind \<open>getAutoRegex\<close> of \<open>regex.ts\<close>, absent from the
  sources: the automatic candidates of a text unit are its maximal runs of annotable
  characters, the character class being the one of the fast-path check \<open>AUTO_QUICK\<close>.
\<close>

function autoScan :: "nat \<Rightarrow> jsstring \<Rightarrow> (nat \<times> jsstring) list" where
  "autoScan i [] = []"
| "autoScan i (c # cs) =
     (if isJapanese c
      then (i, c # takeWhile isJapanese cs) #
             autoScan (i + 1 + length (takeWhile isJapanese cs)) (dropWhile isJapanese cs)
      else autoScan (i + 1) cs)"
  by pat_completeness auto
termination
  by (relation "measure (\<lambda>(i, s). length s)") (auto simp: length_dropWhile_le le_imp_less_Suc)

text \<open>
  Modelled from the spec: \<open>getAutoRegex()\<close> of \<open>regex.ts\<close>, absent from the sources, as a
  matcher: the scan of the text unit from its start.
\<close>

definition getAutoRegex :: matcher where
  "getAutoRegex text_in = autoScan 0 text_in"

text \<open>
  Modelled from the spec: the tokenizer adapter (section 6), absent from the sources with
  \<open>furiganaUtils.ts\<close>: the ordered tokens of a text, each with its surface form and its
  reading, or \<open>None\<close> when the tokenizer is unavailable. Nothing else is assumed of it.
\<close>

record Token =
  surface_form :: jsstring
  reading :: "jsstring option"

type_synonym tokenizer = "jsstring \<Rightarrow> Token list option"

text \<open>
  Modelled from the spec: the manual case of the Segment Aligner (section 4.2), absent from
  the sources with \<open>furiganaUtils.ts\<close>: with one reading segment the whole base is aligned
  to it; otherwise each base character is aligned to the reading segment at its position
  (the README shows both in one \<open>ruby\<close> element).
\<close>

definition manualSegments :: "jsstring \<Rightarrow> jsstring list \<Rightarrow> Segment list" where
  "manualSegments base rs =
     (if length rs = 1 then [\<lparr>kanji = [base], furi = rs\<rparr>]
      else [\<lparr>kanji = map (\<lambda>c. [c]) base, furi = rs\<rparr>])"

text \<open>
  Modelled from the spec: the automatic case of the Segment Aligner for one token, absent
  from the sources with \<open>furiganaUtils.ts\<close>: the surface form, and the reading unless the
  surface form is kana only or the token has none.
\<close>

definition tokenSegment :: "Token \<Rightarrow> Segment" where
  "tokenSegment tok =
     \<lparr>kanji = [surface_form tok],
      furi = [if kanaOnly (surface_form tok) then []
              else (case reading tok of None \<Rightarrow> [] | Some r \<Rightarrow> r)]\<rparr>"

text \<open>
  Modelled from the spec: the automatic case of the Segment Aligner on a base string
  (section 4.2), absent from the sources with \<open>furiganaUtils.ts\<close>: the base is consumed
  along the tokens, one segment per token whose surface form comes next in the base. Of
  tokens that do not spell the base the specification says nothing but that a failure to
  annotate degrades to the original, unannotated text (section 7): where the tokens end
  or leave the base, what is left of the base is one segment without reading.
\<close>

fun alignTokens :: "Token list \<Rightarrow> jsstring \<Rightarrow> Segment list" where
  "alignTokens [] rest = (if rest = [] then [] else [\<lparr>kanji = [rest], furi = [[]]\<rparr>])"
| "alignTokens (tok # toks) rest =
     (if take (length (surface_form tok)) rest = surface_form tok
      then tokenSegment tok # alignTokens toks (drop (length (surface_form tok)) rest)
      else alignTokens [] rest)"

text \<open>
  Modelled from the spec: the automatic case of the Segment Aligner, absent from the
  sources with \<open>furiganaUtils.ts\<close>: the segments of the tokens, or the whole text as one
  segment without reading when the tokenizer is unavailable.
\<close>

definition autoSegments :: "tokenizer \<Rightarrow> jsstring \<Rightarrow> Segment list" where
  "autoSegments tokenize text_in =
     (case tokenize text_in of
        None \<Rightarrow> [\<lparr>kanji = [text_in], furi = [[]]\<rparr>]
      | Some toks \<Rightarrow> alignTokens toks text_in)"

text \<open>
  Modelled from the spec: the Notation Parser on a whole string, absent from the sources
  with \<open>furiganaUtils.ts\<close>: the string is one manual-override span of the style, from its
  first to its last character.
\<close>

definition wholeSpan :: "NotationStyle \<Rightarrow> jsstring \<Rightarrow> (jsstring \<times> jsstring list) option" where
  "wholeSpan style s =
     (case manualAt style s of
        None \<Rightarrow> None
      | Some m \<Rightarrow> if spanLength (fst m) (snd m) = length s then Some m else None)"

text \<open>
  Modelled from the spec: the Notation Parser for a widget, which does not know the style,
  absent from the sources with \<open>furiganaUtils.ts\<close>: a whole span in braces, or else in
  square brackets.
\<close>

definition parseManualSpan :: "jsstring \<Rightarrow> (jsstring \<times> jsstring list) option" where
  "parseManualSpan s = (case wholeSpan Curly s of None \<Rightarrow> wholeSpan Square s | Some m \<Rightarrow> Some m)"

text \<open>
  Modelled from the spec: \<open>getFuriganaSegmentsSync\<close> of \<open>furiganaUtils.ts\<close>, absent from the
  sources: the text of a widget is one match; when it is a whole manual-override span its
  segments are the manual ones, otherwise it goes to the tokenizer.
\<close>

definition getFuriganaSegmentsSync :: "tokenizer \<Rightarrow> jsstring \<Rightarrow> Segment list" where
  "getFuriganaSegmentsSync tokenize text_in =
     (case parseManualSpan text_in of
        None \<Rightarrow> autoSegments tokenize text_in
      | Some m \<Rightarrow> manualSegments (fst m) (snd m))"

section \<open>Notions used in the statements\<close>

text \<open>
  A maximal run of \<open>n\<close> backticks that starts at index \<open>j\<close> of a line, and the positions at
  which the scan of a line can stand: never inside a run.
\<close>

definition isRunAt :: "jsstring \<Rightarrow> nat \<Rightarrow> nat \<Rightarrow> bool" where
  "isRunAt s j n =
     (0 < n \<and> j + n \<le> length s \<and> take n (drop j s) = replicate n backtick \<and>
      (j + n < length s \<longrightarrow> s ! (j + n) \<noteq> backtick) \<and>
      (0 < j \<longrightarrow> s ! (j - 1) \<noteq> backtick))"

definition runBoundary :: "jsstring \<Rightarrow> nat \<Rightarrow> bool" where
  "runBoundary s i = (i < length s \<and> s ! i = backtick \<longrightarrow> i = 0 \<or> s ! (i - 1) \<noteq> backtick)"

text \<open>
  The parity of the lines that \<open>lineTogglesFence\<close> accepts among the first \<open>n\<close> lines of a
  document.
\<close>

definition fenceParity :: "jsstring list \<Rightarrow> nat \<Rightarrow> bool" where
  "fenceParity d n = odd (length (filter lineTogglesFence (take n d)))"

text \<open>The node that \<open>toDOM\<close> appends for one segment.\<close>

definition segmentNode :: "Segment \<Rightarrow> Node" where
  "segmentNode seg =
     (if list_all kanaOnly (kanji seg) then TextNode (concat (kanji seg))
      else makeRuby (kanji seg) (furi seg))"

text \<open>
  A candidate manual-override span: opening bracket, base, the reading segments each after
  a pipe, closing bracket.
\<close>

definition candidateSpan :: "jschar \<Rightarrow> jschar \<Rightarrow> jsstring \<Rightarrow> jsstring list \<Rightarrow> jsstring" where
  "candidateSpan ob cb base rs = ob # base @ concat (map (\<lambda>r. pipe # r) rs) @ [cb]"

text \<open>The nodes that are elements.\<close>

fun isElement :: "Node \<Rightarrow> bool" where
  "isElement (Element tag children) = True"
| "isElement _ = False"

text \<open>Spans in ascending order of which no two overlap.\<close>

fun sortedDisjoint :: "Decoration list \<Rightarrow> bool" where
  "sortedDisjoint [] = True"
| "sortedDisjoint [d] = True"
| "sortedDisjoint (d # e # ds) = (d_to d \<le> d_from e \<and> sortedDisjoint (e # ds))"

subsection \<open>Concrete inputs\<close>

text \<open>
  \<open>kanji_word\<close> is the word of two kanji of the README's examples (U+6F22 U+5B57);
  \<open>today_text\<close> is the first three characters of the scenario line of the specification, two
  kanji and the kana U+306F; \<open>manual_span\<close> is the override of that line: an opening brace,
  \<open>kanji_word\<close>, a pipe, the kana U+304B U+3093, a pipe, the kana U+3058, a closing brace.
\<close>

definition kanji_word :: jsstring where
  "kanji_word = [0x6F22, 0x5B57]"

definition today_text :: jsstring where
  "today_text = [0x4ECA, 0x65E5, 0x306F]"

definition manual_span :: jsstring where
  "manual_span = [0x7B, 0x6F22, 0x5B57, 0x7C, 0x304B, 0x3093, 0x7C, 0x3058, 0x7D]"

text \<open>
  A document of two lines, \<open>abc\<close> and the scenario line up to the end of the override, all
  of it visible, the caret at the start of the first line. The same with the second line
  made of the override of the README alone (an opening brace, \<open>kanji_word\<close>, a pipe, the
  kana U+304B U+3093 U+3058, a closing brace), and the decoration set built for it.
\<close>

definition scenario_view :: EditorView where
  "scenario_view =
     \<lparr>doc = [[0x61, 0x62, 0x63], today_text @ manual_span], viewport_from = 0, viewport_to = 16,
      selection_ranges = [\<lparr>anchor = 0, head = 0\<rparr>], composing = False\<rparr>"

definition readme_span :: jsstring where
  "readme_span = [0x7B, 0x6F22, 0x5B57, 0x7C, 0x304B, 0x3093, 0x3058, 0x7D]"

definition overlap_view :: EditorView where
  "overlap_view =
     \<lparr>doc = [[0x61, 0x62, 0x63], readme_span], viewport_from = 0, viewport_to = 12,
      selection_ranges = [\<lparr>anchor = 0, head = 0\<rparr>], composing = False\<rparr>"

definition overlap_set :: "Decoration list" where
  "overlap_set =
     [\<lparr>d_from = 4, d_to = 12, widget_text = readme_span\<rparr>,
      \<lparr>d_from = 5, d_to = 7, widget_text = kanji_word\<rparr>,
      \<lparr>d_from = 8, d_to = 11, widget_text = [0x304B, 0x3093, 0x3058]\<rparr>]"

text \<open>
  Four lines: a fence of three backticks with the info string \<open>js\<close>, \<open>kanji_word\<close>, a fence
  of three backticks, \<open>kanji_word\<close>. The viewport starts on the second line.
\<close>

definition info_fence :: jsstring where
  "info_fence = [0x60, 0x60, 0x60, 0x6A, 0x73]"

definition info_fence_view :: EditorView where
  "info_fence_view =
     \<lparr>doc = [info_fence, kanji_word, [0x60, 0x60, 0x60], kanji_word],
      viewport_from = 6, viewport_to = 15,
      selection_ranges = [\<lparr>anchor = 0, head = 0\<rparr>], composing = False\<rparr>"

text \<open>
  One line, the letter \<open>a\<close> followed by \<open>kanji_word\<close>, with the caret at 0, composing or not;
  the store before and after a composition starts in that view, the update that reports
  nothing but arrives after the start, and the plugin instance as constructed before.
\<close>

definition caret_view :: "bool \<Rightarrow> EditorView" where
  "caret_view c =
     \<lparr>doc = [0x61 # kanji_word], viewport_from = 0, viewport_to = 3,
      selection_ranges = [\<lparr>anchor = 0, head = 0\<rparr>], composing = c\<rparr>"

definition view_before :: view_store where
  "view_before r = caret_view False"

definition view_composing :: view_store where
  "view_composing r = caret_view True"

definition composition_update :: ViewUpdate where
  "composition_update =
     \<lparr>u_view = 0, docChanged = False, selectionSet = False, viewportChanged = False,
      transactions = []\<rparr>"

definition plugin_before :: PluginValue where
  "plugin_before = \<lparr>p_view = 0, decorations = [\<lparr>d_from = 1, d_to = 3, widget_text = kanji_word\<rparr>]\<rparr>"

text \<open>
  Settings with both modes on. An application in which \<open>note.md\<close> has the frontmatter
  \<open>auto-furigana: false\<close> and is shown by the editor 0, and one without frontmatter; the note
  in the editor (the lines \<open>abc\<close> and \<open>kanji_word\<close>) and as rendered (one paragraph).
\<close>

definition all_on :: PluginSettings where
  "all_on = \<lparr>readingMode = True, editingMode = True, notationStyle = Curly\<rparr>"

definition skip_app :: App where
  "skip_app =
     \<lparr>frontmatterOf = (\<lambda>p. if p = ''note.md''
                            then Some (\<lambda>k. if k = ''auto-furigana'' then Some (FmBool False) else None)
                            else None),
      leaves = [\<lparr>leaf_cm = Some 0, leaf_path = Some ''note.md''\<rparr>]\<rparr>"

definition no_app :: App where
  "no_app = \<lparr>frontmatterOf = (\<lambda>p. None), leaves = []\<rparr>"

definition note_store :: view_store where
  "note_store r =
     \<lparr>doc = [[0x61, 0x62, 0x63], kanji_word], viewport_from = 0, viewport_to = 6,
      selection_ranges = [\<lparr>anchor = 0, head = 0\<rparr>], composing = False\<rparr>"

definition note_dom :: Node where
  "note_dom = Element ''div'' [Element ''p'' [TextNode kanji_word]]"

text \<open>
  A paragraph inside a \<open>pre\<close> element, and a paragraph that holds \<open>today_text\<close>, a \<open>ruby\<close>
  element and a \<open>code\<close> element.
\<close>

definition nested_pre :: Node where
  "nested_pre = Element ''div'' [Element ''pre'' [Element ''p'' [TextNode kanji_word]]]"

definition annotated_dom :: Node where
  "annotated_dom =
     Element ''div''
       [Element ''p''
          [TextNode today_text,
           Element ''ruby'' [Element ''rb'' [TextNode [0x6F22]], Element ''rt'' [TextNode [0x304B, 0x3093]]],
           Element ''code'' [TextNode kanji_word]]]"

text \<open>
  No tokenizer; a tokenizer that splits \<open>today_text\<close> into its two kanji (read U+30AD U+30E7
  U+30A6) and its kana; a segment source that returns a kana segment with a katakana reading
  and a kanji segment.
\<close>

definition unavailable :: tokenizer where
  "unavailable t = None"



definition kana_segments :: "jsstring \<Rightarrow> Segment list" where
  "kana_segments t =
     [\<lparr>kanji = [[0x304B, 0x306A]], furi = [[0x30AB, 0x30CA]]\<rparr>,
      \<lparr>kanji = [kanji_word], furi = [[0x304B, 0x3093, 0x3058]]\<rparr>]"

text \<open>
  The line made of a closed code span on the letter \<open>a\<close>, a space, two backticks and
  \<open>kanji_word\<close>.
\<close>

definition open_code_line :: jsstring where
  "open_code_line = [0x60, 0x61, 0x60, 0x20, 0x60, 0x60, 0x6F22, 0x5B57]"

section \<open>Auxiliary lemmas\<close>

lemma take_drop_replicate_iff:
  "j + n \<le> length s \<Longrightarrow> (take n (drop j s) = replicate n c) = (\<forall>k<n. s ! (j + k) = c)"
  by (auto simp: list_eq_iff_nth_eq)

lemma countRun_spec:
  "i + r \<le> length s \<Longrightarrow> (\<forall>k<r. s ! (i + k) = backtick) \<Longrightarrow>
   r \<le> countRun s i r \<and> i + countRun s i r \<le> length s \<and>
   (\<forall>k<countRun s i r. s ! (i + k) = backtick) \<and>
   (i + countRun s i r < length s \<longrightarrow> s ! (i + countRun s i r) \<noteq> backtick)"
proof (induction s i r rule: countRun.induct)
  case (1 s i runLen)
  show ?case
  proof (cases "i + runLen < length s \<and> s ! (i + runLen) = backtick")
    case True
    then have eq: "countRun s i runLen = countRun s i (runLen + 1)"
      by (subst countRun.simps) simp
    have "\<forall>k<runLen + 1. s ! (i + k) = backtick"
      using True 1(3) by (auto simp: less_Suc_eq)
    with 1(1) True show ?thesis unfolding eq by auto
  next
    case False
    then have eq: "countRun s i runLen = runLen"
      by (subst countRun.simps) auto
    from False 1(2,3) show ?thesis unfolding eq by auto
  qed
qed

lemma countRun_isRunAt:
  assumes "i < length s" "s ! i = backtick" "runBoundary s i"
  shows "isRunAt s i (countRun s i 1)"
proof -
  have "i + 1 \<le> length s" "\<forall>k<1. s ! (i + k) = backtick" using assms by auto
  from countRun_spec[OF this] assms(3,1,2) show ?thesis
    by (auto simp: isRunAt_def take_drop_replicate_iff runBoundary_def)
qed

lemma countRun_next_boundary:
  assumes "i < length s" "s ! i = backtick"
  shows "runBoundary s (i + countRun s i 1)"
proof -
  have "i + 1 \<le> length s" "\<forall>k<1. s ! (i + k) = backtick" using assms by auto
  from countRun_spec[OF this] show ?thesis
    by (auto simp: runBoundary_def)
qed

lemma findClose_spec:
  "runBoundary s i \<Longrightarrow>
   runBoundary s (snd (findClose s n i)) \<and>
   (\<forall>c. fst (findClose s n i) = Some c \<longrightarrow>
      i \<le> c \<and> isRunAt s c n \<and> snd (findClose s n i) = c + n)"
proof (induction s n i rule: findClose.induct)
  case (1 s openerLen i)
  show ?case
  proof (cases "i < length s")
    case False
    then have "findClose s openerLen i = (None, i)" by (subst findClose.simps) simp
    with 1(3) show ?thesis by simp
  next
    case lt: True
    show ?thesis
    proof (cases "s ! i = backtick")
      case False
      have b: "runBoundary s (i + 1)" using False by (simp add: runBoundary_def)
      from lt False have eq: "findClose s openerLen i = findClose s openerLen (i + 1)"
        by (subst findClose.simps) simp
      from 1(2)[OF lt False b] show ?thesis unfolding eq by auto
    next
      case bt: True
      show ?thesis
      proof (cases "countRun s i 1 = openerLen")
        case True
        with lt bt have eq: "findClose s openerLen i = (Some i, i + openerLen)"
          by (subst findClose.simps) simp
        from countRun_isRunAt[OF lt bt 1(3)] countRun_next_boundary[OF lt bt] True
        show ?thesis unfolding eq by auto
      next
        case False
        from lt bt False
        have eq: "findClose s openerLen i = findClose s openerLen (i + countRun s i 1)"
          by (subst findClose.simps) simp
        from 1(1)[OF lt bt refl False countRun_next_boundary[OF lt bt]]
        show ?thesis unfolding eq by auto
      qed
    qed
  qed
qed

lemma scanLoop_closed:
  "runBoundary s i \<Longrightarrow> (a, b) \<in> set (scanLoop s i) \<Longrightarrow>
   \<exists>n. i \<le> a \<and> isRunAt s a n \<and> a + n \<le> b - n \<and> isRunAt s (b - n) n"
proof (induction s i rule: scanLoop.induct)
  case (1 s i)
  show ?case
  proof (cases "i < length s")
    case False
    then have "scanLoop s i = []" by (subst scanLoop.simps) simp
    with "1.prems"(2) show ?thesis by simp
  next
    case lt: True
    show ?thesis
    proof (cases "s ! i = backtick")
      case False
      have b: "runBoundary s (i + 1)" using False by (simp add: runBoundary_def)
      from lt False have eq: "scanLoop s i = scanLoop s (i + 1)"
        by (subst scanLoop.simps) simp
      from "1.IH"(3)[OF lt False b] "1.prems"(2) show ?thesis unfolding eq by auto
    next
      case bt: True
      define n where "n = countRun s i 1"
      define r where "r = findClose s n (i + n)"
      have run: "isRunAt s i n" unfolding n_def by (rule countRun_isRunAt[OF lt bt "1.prems"(1)])
      have b0: "runBoundary s (i + n)" unfolding n_def by (rule countRun_next_boundary[OF lt bt])
      from findClose_spec[OF b0, of n]
      have b1: "runBoundary s (snd r)"
        and cl: "\<And>c. fst r = Some c \<Longrightarrow> i + n \<le> c \<and> isRunAt s c n \<and> snd r = c + n"
        unfolding r_def by auto
      have ge: "i + n \<le> snd r" unfolding r_def by (rule findClose_ge)
      show ?thesis
      proof (cases "fst r")
        case None
        with lt bt have eq: "scanLoop s i = scanLoop s (snd r)"
          by (subst scanLoop.simps) (simp add: Let_def n_def r_def)
        from "1.prems"(2) have "(a, b) \<in> set (scanLoop s (snd r))" unfolding eq .
        from "1.IH"(1)[OF lt bt n_def[symmetric, THEN sym] refl r_def[symmetric, THEN sym] None b1 this] ge
        show ?thesis by auto
      next
        case (Some c)
        with lt bt have eq: "scanLoop s i = (i, c + n) # scanLoop s (snd r)"
          by (subst scanLoop.simps) (simp add: Let_def n_def r_def)
        from "1.prems"(2) consider "(a, b) = (i, c + n)" | "(a, b) \<in> set (scanLoop s (snd r))"
          unfolding eq by auto
        then show ?thesis
        proof cases
          case 1
          with cl[OF Some] run show ?thesis by (intro exI[of _ n]) auto
        next
          case 2
          from "1.IH"(2)[OF lt bt n_def[symmetric, THEN sym] refl r_def[symmetric, THEN sym] Some b1 2] ge
          show ?thesis by auto
        qed
      qed
    qed
  qed
qed

lemma isRunAt_unique: "isRunAt s a n \<Longrightarrow> isRunAt s a m \<Longrightarrow> n = m"
proof (rule ccontr)
  assume a: "isRunAt s a n" "isRunAt s a m" "n \<noteq> m"
  { fix p q assume pq: "isRunAt s a p" "isRunAt s a q" "p < q"
    then have "a + p < length s" by (simp add: isRunAt_def)
    with pq(1) have "s ! (a + p) \<noteq> backtick" by (simp add: isRunAt_def)
    moreover have "s ! (a + p) = backtick"
    proof -
      from pq(2) have "a + q \<le> length s" "take q (drop a s) = replicate q backtick"
        by (simp_all add: isRunAt_def)
      then have "\<forall>k<q. s ! (a + k) = backtick"
        by (simp only: take_drop_replicate_iff)
      with pq(3) show ?thesis by blast
    qed
    ultimately have False by simp }
  with a show False by (metis nat_neq_iff)
qed

lemma bootstrapFence_general:
  "(\<forall>n \<in> set ns. 1 \<le> n \<and> n \<le> length d) \<Longrightarrow>
   bootstrapFence d ns inside =
     Inr (inside \<noteq> odd (length (filter (\<lambda>n. lineTogglesFence (d ! (n - 1))) ns)))"
  by (induction ns arbitrary: inside) (auto simp: docLine_def mkLine_def)

lemma map_lines_upt:
  "k \<le> length d \<Longrightarrow> map (\<lambda>n. d ! (n - 1)) [1..<Suc k] = take k d"
  by (rule nth_equalityI) (simp_all del: upt_Suc)

lemma filter_lines_upt:
  assumes "k \<le> length d"
  shows "length (filter (\<lambda>n. P (d ! (n - 1))) [1..<Suc k]) = length (filter P (take k d))"
proof -
  have "filter P (take k d) = filter P (map (\<lambda>n. d ! (n - 1)) [1..<Suc k])"
    by (simp only: map_lines_upt[OF assms])
  also have "\<dots> = map (\<lambda>n. d ! (n - 1)) (filter (\<lambda>n. P (d ! (n - 1))) [1..<Suc k])"
    by (simp only: filter_map comp_def)
  finally show ?thesis by (simp only: length_map)
qed

text \<open>
  The bootstrap loop yields the parity of the lines that \<open>lineTogglesFence\<close> accepts among
  the lines before the first visible one.
\<close>

lemma bootstrapFence_eq:
  assumes "1 \<le> first" "first \<le> length d"
  shows "bootstrapFence d [1..<first] False = Inr (fenceParity d (first - 1))"
proof -
  from assms obtain k where k: "first = Suc k" "k \<le> length d" by (cases first) auto
  have "\<forall>n \<in> set [1..<first]. 1 \<le> n \<and> n \<le> length d" using assms by auto
  from bootstrapFence_general[OF this, of False] filter_lines_upt[OF k(2), of lineTogglesFence]
  show ?thesis unfolding k by (simp add: fenceParity_def del: upt_Suc)
qed

lemma hitsNoDecor_zones:
  "hitsNoDecor (noDecorZones c rs) f t =
     (\<exists>r \<in> set rs. \<exists>p \<in> {anchor r, head r}.
        int f < int p + (if c then 2 else 1) \<and> int p - (if c then 2 else 1) < int t)"
  by (induction rs) (auto simp: hitsNoDecor_def caretBuffer_def overlaps_def)

lemma builderAdd_set:
  "builderAdd dec b = Inr b' \<Longrightarrow> set (concat b') = insert dec (set (concat b))"
proof (induction b arbitrary: b')
  case Nil
  then show ?case by auto
next
  case (Cons layer nextLayer)
  show ?case
  proof (cases "layer = [] \<or> \<not> d_from dec < d_to (last layer)")
    case True
    with Cons.prems have "b' = (layer @ [dec]) # nextLayer"
      by (auto simp: Let_def split: if_splits)
    then show ?thesis by auto
  next
    case False
    with Cons.prems obtain layers where l: "builderAdd dec nextLayer = Inr layers"
      and b': "b' = layer # layers"
      by (auto simp: Let_def split: if_splits sum.splits)
    from Cons.IH[OF l] have "set (concat layers) = insert dec (set (concat nextLayer))" .
    then have "set layer \<union> set (concat layers) =
               insert dec (set layer \<union> set (concat nextLayer))" by blast
    with b' show ?thesis by simp
  qed
qed

lemma addMatches_zones:
  "addMatches cs nd lf ms b = Inr b' \<Longrightarrow> x \<in> set (concat b') \<Longrightarrow>
   x \<in> set (concat b) \<or> \<not> hitsNoDecor nd (d_from x) (d_to x)"
proof (induction ms arbitrary: b)
  case Nil
  then show ?case by simp
next
  case (Cons m ms)
  obtain index m0 where m: "m = (index, m0)" by (cases m)
  define dec where
    "dec = \<lparr>d_from = lf + index, d_to = lf + (index + length m0), widget_text = m0\<rparr>"
  show ?case
  proof (cases "m0 = [] \<or> hitsCode cs index (index + length m0) \<or>
                hitsNoDecor nd (lf + index) (lf + (index + length m0))")
    case True
    with Cons.prems(1) have "addMatches cs nd lf ms b = Inr b'"
      unfolding m by (auto simp: Let_def split: if_splits)
    from Cons.IH[OF this Cons.prems(2)] show ?thesis .
  next
    case False
    show ?thesis
    proof (cases "builderAdd dec b")
      case (Inl e)
      with False Cons.prems(1) show ?thesis unfolding m dec_def by (simp add: Let_def)
    next
      case (Inr b1)
      with False Cons.prems(1) have "addMatches cs nd lf ms b1 = Inr b'"
        unfolding m dec_def by (simp add: Let_def)
      from Cons.IH[OF this Cons.prems(2)]
      have "x \<in> set (concat b1) \<or> \<not> hitsNoDecor nd (d_from x) (d_to x)" .
      moreover from builderAdd_set[OF Inr] have "set (concat b1) = insert dec (set (concat b))" .
      moreover from False have "\<not> hitsNoDecor nd (d_from dec) (d_to dec)" by (simp add: dec_def)
      ultimately show ?thesis by auto
    qed
  qed
qed

lemma decorateLine_zones:
  assumes "decorateLine rm ra nd line b = Inr b'" and "x \<in> set (concat b')"
  shows "x \<in> set (concat b) \<or> \<not> hitsNoDecor nd (d_from x) (d_to x)"
proof -
  from assms(1) obtain b1 where
    m: "addMatches (inlineBacktickRanges (l_text line)) nd (l_from line) (rm (l_text line)) b = Inr b1"
    and a: "addMatches (inlineBacktickRanges (l_text line)) nd (l_from line) (ra (l_text line)) b1 = Inr b'"
    by (auto simp: decorateLine_def Let_def split: sum.splits)
  from addMatches_zones[OF a assms(2)] addMatches_zones[OF m] show ?thesis by blast
qed

lemma walk_zones:
  "walk rm ra nd d visTo line inside b = Inr b' \<Longrightarrow> x \<in> set (concat b') \<Longrightarrow>
   x \<in> set (concat b) \<or> \<not> hitsNoDecor nd (d_from x) (d_to x)"
proof (induction rm ra nd d visTo line inside b rule: walk.induct)
  case (1 rm ra nd d visTo line inside b)
  define inside1 where "inside1 = (if lineTogglesFence (l_text line) then \<not> inside else inside)"
  define r where "r = (if \<not> inside1 \<and> AUTO_QUICK (l_text line)
                       then decorateLine rm ra nd line b else Inr b)"
  show ?case
  proof (cases "l_from line \<le> visTo")
    case False
    with "1.prems" show ?thesis by (subst (asm) walk.simps) simp
  next
    case le: True
    show ?thesis
    proof (cases r)
      case (Inl e)
      with le "1.prems"(1) show ?thesis
        by (subst (asm) walk.simps) (simp add: Let_def inside1_def[symmetric] r_def[symmetric])
    next
      case (Inr b1)
      have step: "y \<in> set (concat b1) \<Longrightarrow>
                  y \<in> set (concat b) \<or> \<not> hitsNoDecor nd (d_from y) (d_to y)" for y
        using Inr decorateLine_zones[of rm ra nd line b b1 y]
        by (auto simp: r_def split: if_splits)
      show ?thesis
      proof (cases "l_to line \<ge> visTo")
        case True
        with le Inr "1.prems"(1) have "b' = b1"
          by (subst (asm) walk.simps) (simp add: Let_def inside1_def[symmetric] r_def[symmetric])
        with step "1.prems"(2) show ?thesis by blast
      next
        case nt: False
        show ?thesis
        proof (cases "docLine d (l_number line + 1)")
          case None
          with le nt Inr "1.prems"(1) show ?thesis
            by (subst (asm) walk.simps) (simp add: Let_def inside1_def[symmetric] r_def[symmetric])
        next
          case (Some line1)
          with le nt Inr "1.prems"(1) have w: "walk rm ra nd d visTo line1 inside1 b1 = Inr b'"
            by (subst (asm) walk.simps) (simp add: Let_def inside1_def[symmetric] r_def[symmetric])
          have "x \<in> set (concat b1) \<or> \<not> hitsNoDecor nd (d_from x) (d_to x)"
            using "1.IH"[OF le inside1_def _ _ Some w "1.prems"(2)] Inr nt
            by (simp add: r_def)
          with step show ?thesis by blast
        qed
      qed
    qed
  qed
qed

lemma set_mergeLayers: "set (mergeLayers xs ys) = set xs \<union> set ys"
  by (induction xs ys rule: mergeLayers.induct) auto

lemma set_finish: "set (finish layers) = set (concat layers)"
  by (induction layers) (simp_all add: finish_def set_mergeLayers)

text \<open>
  Every call of \<open>buildDecorations\<close> that returns leaves out the matches that overlap a zone
  of the view it was given.
\<close>

lemma buildDecorations_outside_zones:
  assumes "buildDecorations gm ra v style = Inr ds" and "x \<in> set ds"
  shows "\<not> hitsNoDecor (noDecorZones (composing v) (selection_ranges v)) (d_from x) (d_to x)"
proof (cases "AUTO_QUICK (docToString (doc v))")
  case False
  with assms show ?thesis by (simp add: buildDecorations_def finish_def)
next
  case True
  with assms(1) obtain line inside b where
    w: "walk (gm style) ra (noDecorZones (composing v) (selection_ranges v)) (doc v)
          (viewport_to v) line inside [] = Inr b"
    and ds: "ds = finish b"
    by (auto simp: buildDecorations_def Let_def split: option.splits sum.splits)
  from assms(2) ds have "x \<in> set (concat b)" by (simp add: set_finish)
  from walk_zones[OF w this] show ?thesis by simp
qed

lemma fold_appendSegment: "fold appendSegment segs acc = acc @ map segmentNode segs"
  by (induction segs arbitrary: acc) (simp_all add: appendSegment_def segmentNode_def Let_def)

lemma toDOM_eq: "toDOM g t = Element ''span'' (map segmentNode (g t))"
  by (simp add: toDOM_def fold_appendSegment)












lemma takeWhile_stop:
  assumes "list_all P r" "X = [] \<or> \<not> P (hd X)"
  shows "takeWhile P (r @ X) = r" "dropWhile P (r @ X) = X"
  using assms by (induction r) (auto simp: takeWhile_eq_Nil_iff dropWhile_eq_self_iff)

lemma isKana_pipe: "\<not> isKana pipe"
  by (simp add: isKana_def pipe_def)

lemma readingSegments_candidate:
  assumes "\<forall>r\<in>set rs. list_all isKana r" "cb \<noteq> pipe" "\<not> isKana cb"
  shows "readingSegments (concat (map (\<lambda>r. pipe # r) rs) @ cb # rest) = (rs, cb # rest)"
  using assms(1)
proof (induction rs)
  case Nil
  with assms(2) show ?case by simp
next
  case (Cons r rs)
  define X where "X = concat (map (\<lambda>r. pipe # r) rs) @ cb # rest"
  have stop: "X = [] \<or> \<not> isKana (hd X)"
    using assms(3) isKana_pipe by (cases rs) (simp_all add: X_def)
  from Cons.prems have kr: "list_all isKana r" by simp
  from Cons have IH: "readingSegments X = (rs, cb # rest)" by (simp add: X_def)
  have "readingSegments (pipe # r @ X) = (r # rs, cb # rest)"
    using takeWhile_stop[OF kr stop] IH by (simp add: Let_def)
  then show ?case by (simp add: X_def)
qed

lemma closeBracket_facts:
  assumes "openBracket style = Some ob" "closeBracket style = Some cb"
  shows "cb \<noteq> pipe" "\<not> isKana cb" "isDelimiter cb" "isDelimiter ob" "ob \<noteq> cb" "ob \<noteq> pipe"
    "\<not> isKana ob"
  using assms by (cases style; simp add: pipe_def isKana_def isDelimiter_def)+

lemma manualAt_candidate:
  assumes ob: "openBracket style = Some ob" and cb: "closeBracket style = Some cb"
    and base: "\<forall>c\<in>set base. \<not> isDelimiter c"
    and rs: "\<forall>r\<in>set rs. list_all isKana r"
  shows "manualAt style (candidateSpan ob cb base rs @ rest) =
         (if validManual base rs then Some (base, rs) else None)"
proof -
  note f = closeBracket_facts[OF ob cb]
  define Y where "Y = concat (map (\<lambda>r. pipe # r) rs) @ cb # rest"
  have stop: "Y = [] \<or> \<not> (\<lambda>x. \<not> isDelimiter x) (hd Y)"
    using f(3) by (cases rs) (simp_all add: Y_def isDelimiter_def)
  have lb: "list_all (\<lambda>x. \<not> isDelimiter x) base" using base by (simp add: list_all_iff)
  have rd: "readingSegments Y = (rs, cb # rest)"
    unfolding Y_def by (rule readingSegments_candidate[OF rs f(1) f(2)])
  have "candidateSpan ob cb base rs @ rest = ob # base @ Y"
    by (simp add: candidateSpan_def Y_def)
  then show ?thesis
    using takeWhile_stop[OF lb stop] rd ob cb by (simp add: manualAt_def Let_def)
qed

lemma manualAt_no_bracket:
  assumes "openBracket style = Some ob" "s = [] \<or> hd s \<noteq> ob"
  shows "manualAt style s = None"
  using assms by (cases s) (auto simp: manualAt_def split: option.splits)

lemma manualScan_no_bracket:
  assumes "openBracket style = Some ob"
  shows "ob \<notin> set s \<Longrightarrow> manualScan style i s = []"
proof (induction s arbitrary: i)
  case Nil
  show ?case by simp
next
  case (Cons c cs)
  then have "c \<noteq> ob" by auto
  then have "manualAt style (c # cs) = None"
    using manualAt_no_bracket[OF assms, of "c # cs"] by simp
  with Cons show ?case by simp
qed

lemma candidate_tail_no_bracket:
  assumes ob: "openBracket style = Some ob" and cb: "closeBracket style = Some cb"
    and base: "\<forall>c\<in>set base. \<not> isDelimiter c"
    and rs: "\<forall>r\<in>set rs. list_all isKana r"
  shows "ob \<notin> set (base @ concat (map (\<lambda>r. pipe # r) rs) @ [cb])"
proof -
  note f = closeBracket_facts[OF ob cb]
  have "ob \<notin> set base" using base f(4) by auto
  moreover have "ob \<notin> set (concat (map (\<lambda>r. pipe # r) rs))"
    using rs f(6,7) by (auto simp: list_all_iff)
  ultimately show ?thesis using f(5) by simp
qed

lemma getManualRegex_candidate_mismatch:
  assumes ob: "openBracket style = Some ob" and cb: "closeBracket style = Some cb"
    and base: "\<forall>c\<in>set base. \<not> isDelimiter c"
    and rs: "\<forall>r\<in>set rs. list_all isKana r"
    and bad: "\<not> validManual base rs"
  shows "getManualRegex style (candidateSpan ob cb base rs) = []"
proof -
  have "manualAt style (candidateSpan ob cb base rs) = None"
    using manualAt_candidate[OF ob cb base rs, of "[]"] bad by simp
  moreover have "manualScan style 1 (base @ concat (map (\<lambda>r. pipe # r) rs) @ [cb]) = []"
    by (rule manualScan_no_bracket[OF ob candidate_tail_no_bracket[OF ob cb base rs]])
  ultimately show ?thesis by (simp add: getManualRegex_def candidateSpan_def)
qed

lemma collect_append:
  "collectTextNodes anc node out = out @ collectTextNodes anc node []"
proof (induction node arbitrary: anc out)
  case (TextNode v)
  show ?case by simp
next
  case OtherNode
  show ?case by simp
next
  case (Element tag children)
  have "set cs \<subseteq> set children \<Longrightarrow>
        fold (collectTextNodes (tag # anc)) cs acc = acc @ fold (collectTextNodes (tag # anc)) cs []"
    for cs acc
  proof (induction cs arbitrary: acc)
    case Nil
    show ?case by simp
  next
    case (Cons c cs)
    then have c: "c \<in> set children" and sub: "set cs \<subseteq> set children" by auto
    have "fold (collectTextNodes (tag # anc)) (c # cs) acc =
          collectTextNodes (tag # anc) c acc @ fold (collectTextNodes (tag # anc)) cs []"
      using Cons.IH[OF sub, of "collectTextNodes (tag # anc) c acc"] by simp
    also have "\<dots> = acc @ collectTextNodes (tag # anc) c [] @ fold (collectTextNodes (tag # anc)) cs []"
      using Element.IH[OF c, of "tag # anc" acc] by simp
    also have "\<dots> = acc @ fold (collectTextNodes (tag # anc)) (c # cs) []"
      using Cons.IH[OF sub, of "collectTextNodes (tag # anc) c []"] by simp
    finally show ?case .
  qed
  from this[of children out] show ?case by simp
qed

lemma fold_collect_mem:
  "x \<in> set (fold (collectTextNodes anc) cs acc) \<Longrightarrow>
   x \<in> set acc \<or> (\<exists>c \<in> set cs. x \<in> set (collectTextNodes anc c []))"
proof (induction cs arbitrary: acc)
  case Nil
  then show ?case by simp
next
  case (Cons c cs)
  from Cons.prems have "x \<in> set (fold (collectTextNodes anc) cs (collectTextNodes anc c acc))"
    by simp
  from Cons.IH[OF this] show ?case
    using collect_append[of anc c acc] by auto
qed

lemma collect_mem:
  "(a, v) \<in> set (collectTextNodes anc node []) \<Longrightarrow>
   (\<exists>below. a = below @ anc \<and> (\<forall>t\<in>set below. \<not> isSkippableElement t) \<and>
      (isElement node \<longrightarrow> below \<noteq> [])) \<and>
   (isElement node \<or> ''ruby'' \<notin> set anc \<longrightarrow> ''ruby'' \<notin> set a)"
proof (induction node arbitrary: anc)
  case (TextNode w)
  then show ?case by (auto split: if_splits)
next
  case OtherNode
  then show ?case by simp
next
  case (Element tag children)
  show ?case
  proof (cases "isSkippableElement tag \<or> ''ruby'' \<in> set anc")
    case True
    then have "collectTextNodes anc (Element tag children) [] = []" by auto
    with Element.prems show ?thesis by simp
  next
    case False
    then have ns: "\<not> isSkippableElement tag" and nr: "''ruby'' \<notin> set anc"
      and tr: "tag \<noteq> ''ruby''" by (auto simp: isSkippableElement_def)
    with Element.prems
    have "(a, v) \<in> set (fold (collectTextNodes (tag # anc)) children [])" by simp
    from fold_collect_mem[OF this]
    obtain c where c: "c \<in> set children" "(a, v) \<in> set (collectTextNodes (tag # anc) c [])"
      by auto
    from Element.IH[OF c] nr tr
    obtain below where b: "a = below @ tag # anc" "\<forall>t\<in>set below. \<not> isSkippableElement t"
      and r: "''ruby'' \<notin> set a" by auto
    have "a = (below @ [tag]) @ anc \<and> (\<forall>t\<in>set (below @ [tag]). \<not> isSkippableElement t) \<and>
          below @ [tag] \<noteq> []"
      using b ns by simp
    with r show ?thesis by blast
  qed
qed

lemma querySelectorAll_elements:
  "(anc, n) \<in> set (querySelectorAll anc0 el) \<Longrightarrow> isElement n"
proof (induction el arbitrary: anc0)
  case (Element tag children)
  then show ?case by (auto split: Node.splits if_splits)
qed simp_all

lemma pluginUpdate_same_view:
  assumes "u_view u = p_view this"
    and "\<not> docChanged u" "\<not> selectionSet u" "\<not> viewportChanged u"
    and "\<not> list_ex (\<lambda>t. isUserEvent t ''input'' \<or> isUserEvent t ''delete'') (transactions u)"
  shows "pluginUpdate gm ga style store this u = Inr this"
  using assms by (simp add: pluginUpdate_def)

lemma readingSegments_inv:
  "readingSegments t = (rs, rest) \<Longrightarrow>
   t = concat (map (\<lambda>r. pipe # r) rs) @ rest \<and> (\<forall>r\<in>set rs. list_all isKana r)"
proof (induction t arbitrary: rs rest rule: readingSegments.induct)
  case 1
  then show ?case by simp
next
  case (2 c cs)
  show ?case
  proof (cases "c = pipe")
    case False
    with 2(2) show ?thesis by simp
  next
    case True
    obtain rs' rest' where r: "readingSegments (dropWhile isKana cs) = (rs', rest')"
      by (cases "readingSegments (dropWhile isKana cs)")
    from 2(1)[OF True r]
    have IH: "dropWhile isKana cs = concat (map (\<lambda>r. pipe # r) rs') @ rest'"
      "\<forall>r\<in>set rs'. list_all isKana r" by auto
    from 2(2) True r have eq: "rs = takeWhile isKana cs # rs'" "rest = rest'"
      by (simp_all add: Let_def)
    have "cs = takeWhile isKana cs @ dropWhile isKana cs" by simp
    then have "c # cs = pipe # takeWhile isKana cs @ concat (map (\<lambda>r. pipe # r) rs') @ rest'"
      using True IH(1) by simp
    moreover have "list_all isKana (takeWhile isKana cs)"
      by (auto simp: list_all_iff dest: set_takeWhileD)
    ultimately show ?thesis using eq IH(2) by simp
  qed
qed

lemma manualAt_inv:
  assumes "manualAt style s = Some (base, rs)"
  shows "\<exists>ob cb rest. openBracket style = Some ob \<and> closeBracket style = Some cb \<and>
           s = candidateSpan ob cb base rs @ rest \<and> (\<forall>c\<in>set base. \<not> isDelimiter c) \<and>
           (\<forall>r\<in>set rs. list_all isKana r) \<and> validManual base rs"
proof -
  from assms obtain ob cb c cs where h: "openBracket style = Some ob" "closeBracket style = Some cb"
    "s = c # cs"
    by (cases style; cases s) (auto simp: manualAt_def)
  define after where "after = dropWhile (\<lambda>x. \<not> isDelimiter x) cs"
  obtain rs' rest' where r: "readingSegments after = (rs', rest')"
    by (cases "readingSegments after")
  from assms h r have c: "c = ob" and b: "base = takeWhile (\<lambda>x. \<not> isDelimiter x) cs"
    and rs: "rs = rs'" and v: "validManual base rs" and e: "\<exists>rest. rest' = cb # rest"
    by (auto simp: manualAt_def Let_def after_def split: if_splits list.splits)
  from e obtain rest where rest: "rest' = cb # rest" by blast
  from readingSegments_inv[OF r] rs rest
  have a: "after = concat (map (\<lambda>r. pipe # r) rs) @ cb # rest" and k: "\<forall>r\<in>set rs. list_all isKana r"
    by auto
  have "cs = base @ after" unfolding b after_def by simp
  with a c h(3) have "s = candidateSpan ob cb base rs @ rest"
    by (simp add: candidateSpan_def)
  moreover have "\<forall>c\<in>set base. \<not> isDelimiter c"
    unfolding b by (auto dest: set_takeWhileD)
  ultimately show ?thesis using h(1,2) k v by blast
qed

lemma length_candidateSpan: "length (candidateSpan ob cb base rs) = spanLength base rs"
  by (simp add: candidateSpan_def spanLength_def length_concat comp_def)

lemma manualAt_wholeSpan:
  assumes "manualAt style s = Some (base, rs)"
  shows "wholeSpan style (take (spanLength base rs) s) = Some (base, rs)"
proof -
  from manualAt_inv[OF assms] obtain ob cb rest where
    h: "openBracket style = Some ob" "closeBracket style = Some cb"
      "s = candidateSpan ob cb base rs @ rest" "\<forall>c\<in>set base. \<not> isDelimiter c"
      "\<forall>r\<in>set rs. list_all isKana r" "validManual base rs"
    by blast
  have "spanLength base rs = length (candidateSpan ob cb base rs)"
    by (simp add: length_candidateSpan)
  then have t: "take (spanLength base rs) s = candidateSpan ob cb base rs"
    unfolding h(3) by simp
  have "manualAt style (candidateSpan ob cb base rs) = Some (base, rs)"
    using manualAt_candidate[OF h(1,2,4,5), of "[]"] h(6) by simp
  then show ?thesis unfolding t by (simp add: wholeSpan_def length_candidateSpan)
qed

lemma manualScan_matches:
  "(i, m0) \<in> set (manualScan style j s) \<Longrightarrow> \<exists>base rs. wholeSpan style m0 = Some (base, rs)"
proof (induction style j s rule: manualScan.induct)
  case (1 style i)
  then show ?case by simp
next
  case (2 style j c cs)
  show ?case
  proof (cases "manualAt style (c # cs)")
    case None
    with 2 show ?thesis by simp
  next
    case (Some m)
    obtain base rs where m: "m = (base, rs)" by (cases m)
    from 2(3) Some m consider "m0 = take (spanLength base rs) (c # cs)"
      | "(i, m0) \<in> set (manualScan style (j + spanLength base rs) (drop (spanLength base rs) (c # cs)))"
      by auto
    then show ?thesis
    proof cases
      case 1
      with manualAt_wholeSpan[of style "c # cs" base rs] Some m show ?thesis by auto
    next
      case 2
      from "2.IH"(2)[OF Some[unfolded m] refl 2] show ?thesis .
    qed
  qed
qed



lemma manual_match_is_valid_span:
  assumes "(i, m0) \<in> set (getManualRegex style s)"
    and "openBracket style = Some ob" "closeBracket style = Some cb"
  shows "\<exists>base rs. m0 = candidateSpan ob cb base rs \<and> base \<noteq> [] \<and> rs \<noteq> [] \<and>
           (length rs = 1 \<or> length rs = length base)"
proof -
  from assms(1) obtain base rs where w: "wholeSpan style m0 = Some (base, rs)"
    using manualScan_matches[of i m0 style 0 s] by (auto simp: getManualRegex_def)
  then have ma: "manualAt style m0 = Some (base, rs)" and len: "spanLength base rs = length m0"
    by (auto simp: wholeSpan_def split: option.splits if_splits)
  from manualAt_inv[OF ma] assms(2,3) obtain rest where
    h: "m0 = candidateSpan ob cb base rs @ rest" "validManual base rs" by auto
  from h(1) len have "rest = []"
    using length_candidateSpan[of ob cb base rs] by (metis append_eq_conv_conj append_self_conv length_append add_cancel_right_right length_0_conv)
  with h show ?thesis by (auto simp: validManual_def)
qed

section \<open>The claims\<close>




text \<open>
  Claim C2: a candidate manual-override span with more than one reading segment is a
  ManualMatch only if it has as many reading segments as its base has characters; on a
  mismatch, or with an empty base, the span is not a match, and its text falls through to
  automatic scanning.

  For a candidate span in the brackets of the style, with a base free of brackets and
  pipes and with kana readings: the Notation Parser accepts it exactly when the base is not
  empty, there is a reading, and the readings are one or as many as the base characters.
  When the base is empty or the counts differ, the scanner finds no manual match in the
  span, and the segments of its text are the automatic ones. Conversely every match that
  the scanner reports on a text unit is such a span, with a base that is not empty and,
  when it has more than one reading, as many readings as base characters.
\<close>

theorem manual_span_needs_matching_segments:
  assumes "openBracket style = Some ob" and "closeBracket style = Some cb"
    and "\<forall>c \<in> set base. \<not> isDelimiter c" and "\<forall>r \<in> set rs. list_all isKana r"
  shows "manualAt style (candidateSpan ob cb base rs @ rest) =
           (if base \<noteq> [] \<and> rs \<noteq> [] \<and> (length rs = 1 \<or> length rs = length base)
            then Some (base, rs) else None) \<and>
         (base = [] \<or> (1 < length rs \<and> length rs \<noteq> length base) \<longrightarrow>
            getManualRegex style (candidateSpan ob cb base rs) = [] \<and>
            getFuriganaSegmentsSync tk (candidateSpan ob cb base rs) =
              autoSegments tk (candidateSpan ob cb base rs)) \<and>
         ((i, m0) \<in> set (getManualRegex style s) \<longrightarrow>
            (\<exists>b qs. m0 = candidateSpan ob cb b qs \<and> b \<noteq> [] \<and> qs \<noteq> [] \<and>
               (1 < length qs \<longrightarrow> length qs = length b)))"
proof -
  have first: "manualAt style (candidateSpan ob cb base rs @ rest) =
           (if base \<noteq> [] \<and> rs \<noteq> [] \<and> (length rs = 1 \<or> length rs = length base)
            then Some (base, rs) else None)"
    using manualAt_candidate[OF assms, of rest] by (simp add: validManual_def)
  have second: "getManualRegex style (candidateSpan ob cb base rs) = [] \<and>
            getFuriganaSegmentsSync tk (candidateSpan ob cb base rs) =
              autoSegments tk (candidateSpan ob cb base rs)"
    if bad: "base = [] \<or> (1 < length rs \<and> length rs \<noteq> length base)"
  proof -
    from bad have nv: "\<not> validManual base rs" by (auto simp: validManual_def)
    have none: "manualAt style (candidateSpan ob cb base rs) = None"
      using manualAt_candidate[OF assms, of "[]"] nv by simp
    have other: "manualAt style' (candidateSpan ob cb base rs) = None" if "style' \<noteq> style" for style'
    proof (cases "openBracket style'")
      case None
      then show ?thesis by (cases style') (simp_all add: manualAt_def)
    next
      case (Some ob')
      with that assms(1) have "ob' \<noteq> ob" by (cases style; cases style') auto
      then show ?thesis
        using manualAt_no_bracket[OF Some, of "candidateSpan ob cb base rs"]
        by (simp add: candidateSpan_def)
    qed
    have "manualAt Curly (candidateSpan ob cb base rs) = None"
      "manualAt Square (candidateSpan ob cb base rs) = None"
      using none other by metis+
    then have "parseManualSpan (candidateSpan ob cb base rs) = None"
      by (simp add: parseManualSpan_def wholeSpan_def)
    with getManualRegex_candidate_mismatch[OF assms nv] show ?thesis
      by (simp add: getFuriganaSegmentsSync_def)
  qed
  have third: "\<exists>b qs. m0 = candidateSpan ob cb b qs \<and> b \<noteq> [] \<and> qs \<noteq> [] \<and>
               (1 < length qs \<longrightarrow> length qs = length b)"
    if "(i, m0) \<in> set (getManualRegex style s)"
  proof -
    from manual_match_is_valid_span[OF that assms(1,2)] obtain b qs where
      "m0 = candidateSpan ob cb b qs" "b \<noteq> []" "qs \<noteq> []"
      "length qs = 1 \<or> length qs = length b" by blast
    then have "m0 = candidateSpan ob cb b qs \<and> b \<noteq> [] \<and> qs \<noteq> [] \<and>
               (1 < length qs \<longrightarrow> length qs = length b)" by auto
    then show ?thesis by blast
  qed
  from first second third show ?thesis by blast
qed

text \<open>
  Two kanji with three readings are no match; the same kanji with two readings are.
\<close>

theorem manual_span_witness:
  "candidateSpan 0x7B 0x7D kanji_word [[0x304B], [0x3093], [0x3058]] =
     [0x7B, 0x6F22, 0x5B57, 0x7C, 0x304B, 0x7C, 0x3093, 0x7C, 0x3058, 0x7D] \<and>
   manualAt Curly (candidateSpan 0x7B 0x7D kanji_word [[0x304B], [0x3093], [0x3058]]) = None \<and>
   getManualRegex Curly (candidateSpan 0x7B 0x7D kanji_word [[0x304B], [0x3093], [0x3058]]) = [] \<and>
   candidateSpan 0x7B 0x7D kanji_word [[0x304B, 0x3093], [0x3058]] = manual_span \<and>
   manualAt Curly manual_span = Some (kanji_word, [[0x304B, 0x3093], [0x3058]])"
proof -
  have o: "openBracket Curly = Some 0x7B" "closeBracket Curly = Some 0x7D" by simp_all
  have b: "\<forall>c \<in> set kanji_word. \<not> isDelimiter c" by code_simp
  have r3: "\<forall>r \<in> set [[0x304B], [0x3093], [0x3058 :: jschar]]. list_all isKana r" by code_simp
  have r2: "\<forall>r \<in> set [[0x304B, 0x3093], [0x3058 :: jschar]]. list_all isKana r" by code_simp
  have c3: "candidateSpan 0x7B 0x7D kanji_word [[0x304B], [0x3093], [0x3058]] =
     [0x7B, 0x6F22, 0x5B57, 0x7C, 0x304B, 0x7C, 0x3093, 0x7C, 0x3058, 0x7D]" by code_simp
  have c2: "candidateSpan 0x7B 0x7D kanji_word [[0x304B, 0x3093], [0x3058]] = manual_span"
    by code_simp
  have l: "length kanji_word = 2" "kanji_word \<noteq> []" by (simp_all add: kanji_word_def)
  note t3 = manual_span_needs_matching_segments[OF o b r3, of "[]" unavailable]
    and t2 = manual_span_needs_matching_segments[OF o b r2, of "[]" unavailable]
  from t3 have m3:
    "manualAt Curly (candidateSpan 0x7B 0x7D kanji_word [[0x304B], [0x3093], [0x3058]]) = None"
    and g3:
    "getManualRegex Curly (candidateSpan 0x7B 0x7D kanji_word [[0x304B], [0x3093], [0x3058]]) = []"
    by (simp_all add: l)
  from t2 have m2: "manualAt Curly manual_span = Some (kanji_word, [[0x304B, 0x3093], [0x3058]])"
    by (simp add: l c2)
  from c3 m3 g3 c2 m2 show ?thesis by (intro conjI)
qed

text \<open>
  Claim C3: the decoration set of a rebuild lists its spans in ascending order, no two
  spans overlap, and an automatic match that overlaps a manual match is suppressed.

  The builder adds all manual matches of a line and after them all automatic matches of
  the whole line; nothing compares an automatic match with a manual one. On the second
  line of \<open>scenario_view\<close> (the line of the scenario of the specification up to the manual
  override, caret on the first line) the manual match is added at 7, and the first
  automatic match, added next, starts at 4: \<open>builder.add\<close> throws, the rebuild produces no
  decoration set at all, and a plugin constructed on this view ends with the exception.

  On the second line of \<open>overlap_view\<close> (the override of the README alone) the manual match
  is added at 4 to 12 and the automatic matches of its base and of its reading at 5 to 7
  and at 8 to 11: nothing is out of order, the two automatic matches go to the second
  layer of the builder, and the decoration set holds three spans of which the last two lie
  inside the first.
\<close>

theorem automatic_after_manual_breaks_order:
  "getManualRegex Curly (today_text @ manual_span) = [(3, manual_span)] \<and>
   getAutoRegex (today_text @ manual_span) =
     [(0, today_text), (4, kanji_word), (7, [0x304B, 0x3093]), (10, [0x3058])] \<and>
   buildDecorations getManualRegex getAutoRegex scenario_view Curly = Inl UnsortedRanges \<and>
   pluginCreate getManualRegex getAutoRegex Curly (\<lambda>r. scenario_view) 0 = Inl UnsortedRanges \<and>
   getManualRegex Curly readme_span = [(0, readme_span)] \<and>
   getAutoRegex readme_span = [(1, kanji_word), (4, [0x304B, 0x3093, 0x3058])] \<and>
   buildDecorations getManualRegex getAutoRegex overlap_view Curly = Inr overlap_set \<and>
   \<not> sortedDisjoint overlap_set"
  by code_simp

text \<open>
  Claim C4: an automatic token whose surface form is kana only gets no reading
  annotation: it is emitted as a plain text node, even when a reading comes with it.

  A token is one segment, its surface form in \<open>kanji\<close> and its reading in \<open>furi\<close>. For any
  source \<open>g\<close> of segments, \<open>toDOM\<close> appends one child per segment, and the child of a segment
  whose \<open>kanji\<close> entries are all kana only (not empty, every character in U+3040-U+30FF, the
  class that \<open>toDOM\<close> tests) is the text node of these entries, whatever \<open>furi\<close> holds.
\<close>

theorem kana_only_segment_is_plain_text:
  assumes "i < length (g t)" and "list_all kanaOnly (kanji (g t ! i))"
  shows "length (childNodes (toDOM g t)) = length (g t) \<and>
         childNodes (toDOM g t) ! i = TextNode (concat (kanji (g t ! i)))"
  using assms by (simp add: toDOM_eq segmentNode_def)

text \<open>
  A kana token that comes with a katakana reading is plain text; the kanji token next to
  it is a \<open>ruby\<close> element.
\<close>

theorem kana_only_segment_witness:
  "kanji (kana_segments today_text ! 0) = [[0x304B, 0x306A]] \<and>
   furi (kana_segments today_text ! 0) = [[0x30AB, 0x30CA]] \<and>
   childNodes (toDOM kana_segments today_text) ! 0 = TextNode [0x304B, 0x306A] \<and>
   childNodes (toDOM kana_segments today_text) ! 1 =
     Element ''ruby'' [Element ''rb'' [TextNode kanji_word],
                       Element ''rt'' [TextNode [0x304B, 0x3093, 0x3058]]]"
proof -
  have i: "0 < length (kana_segments today_text)" by (simp add: kana_segments_def)
  have k: "list_all kanaOnly (kanji (kana_segments today_text ! 0))" by code_simp
  have c: "concat (kanji (kana_segments today_text ! 0)) = [0x304B, 0x306A]"
    by (simp add: kana_segments_def)
  have r: "childNodes (toDOM kana_segments today_text) ! 1 =
     Element ''ruby'' [Element ''rb'' [TextNode kanji_word],
                       Element ''rt'' [TextNode [0x304B, 0x3093, 0x3058]]]"
    by code_simp
  from kana_only_segment_is_plain_text[of 0 kana_segments today_text, OF i k] c r show ?thesis
    by (simp add: kana_segments_def)
qed

text \<open>
  Claim C5: the inside-fence state with which the first visible line is scanned is the
  parity of the fence-toggling lines from the start of the document, so a line inside a
  fenced code block opened before the viewport gets no decoration, wherever the viewport is.

  The bootstrap loop does yield the parity of the lines that \<open>lineTogglesFence\<close> accepts
  (\<open>bootstrapFence_eq\<close>). But \<open>lineTogglesFence\<close>, whose comment reads \<open>Supports backticks
  and tildes with optional info strings\<close>, asks for white space or the end of the line
  right after the fence run, and so rejects an opening fence with its info string
  attached, such as three backticks followed by \<open>js\<close>. In \<open>info_fence_view\<close> such a fence
  on line 1, above the viewport, opens a block that the fence on line 3 closes: the state
  after the bootstrap is \<open>false\<close>, the kanji of line 2, inside the block, are decorated, and
  the kanji of line 4, after the block, are taken to be inside a fence and are not.
\<close>

theorem info_string_fence_not_recognised:
  "\<not> lineTogglesFence info_fence \<and>
   lineTogglesFence [0x60, 0x60, 0x60] \<and>
   lineAt (doc info_fence_view) (viewport_from info_fence_view) =
     Some \<lparr>l_number = 2, l_from = 6, l_to = 8, l_text = kanji_word\<rparr> \<and>
   bootstrapFence (doc info_fence_view) [1..<2] False = Inr False \<and>
   docLine (doc info_fence_view) 4 =
     Some \<lparr>l_number = 4, l_from = 13, l_to = 15, l_text = kanji_word\<rparr> \<and>
   buildDecorations getManualRegex getAutoRegex info_fence_view Curly =
     Inr [\<lparr>d_from = 6, d_to = 8, widget_text = kanji_word\<rparr>]"
  by code_simp


text \<open>
  Claim C7: a document whose frontmatter switches the plugin off is neither scanned nor
  decorated, in Reading Mode and in Live Preview.

  The Reading Mode postprocessor asks \<open>shouldSkipByPath\<close> and returns at once. The Live
  Preview plugin never asks: its constructor and its \<open>update\<close> call \<open>buildDecorations\<close>
  whatever the frontmatter says, although \<open>shouldSkipForEditorView\<close> would answer for its
  view. For the note \<open>note.md\<close> with \<open>auto-furigana: false\<close>, shown by the editor 0:
\<close>

theorem live_preview_ignores_skip_flag:
  "shouldSkipByPath skip_app ''note.md'' \<and>
   shouldSkipForEditorView skip_app 0 \<and>
   readingModePostprocessor getAutoRegex skip_app all_on note_dom ''note.md'' = [] \<and>
   readingModePostprocessor getAutoRegex no_app all_on note_dom ''note.md'' =
     [([''p'', ''div''], kanji_word)] \<and>
   pluginCreate getManualRegex getAutoRegex Curly note_store 0 =
     Inr \<lparr>p_view = 0, decorations = [\<lparr>d_from = 4, d_to = 6, widget_text = kanji_word\<rparr>]\<rparr>"
  by code_simp

text \<open>
  Claim C8, as amended: scanning a line for inline code spans is total (it throws
  nothing), and a run of backticks with no later run of exactly the same length opens no
  code span: no range that \<open>inlineBacktickRanges\<close> returns starts at it. (The claim as
  stated has the unterminated run open a span to the end of the line; the source pushes a
  range only under \<open>closeStart !== -1\<close>.)
\<close>

theorem unterminated_opener_opens_no_span:
  assumes "isRunAt s a n" and "\<forall>c. a + n \<le> c \<longrightarrow> \<not> isRunAt s c n"
  shows "\<forall>r \<in> set (inlineBacktickRanges s). fst r \<noteq> a"
proof
  fix r assume mem: "r \<in> set (inlineBacktickRanges s)"
  show "fst r \<noteq> a"
  proof
    assume "fst r = a"
    then have "r = (a, snd r)" by (metis prod.collapse)
    with mem have "(a, snd r) \<in> set (scanLoop s 0)"
      by (simp add: inlineBacktickRanges_def)
    moreover have "runBoundary s 0" by (simp add: runBoundary_def)
    ultimately obtain m where m: "isRunAt s a m" "a + m \<le> snd r - m" "isRunAt s (snd r - m) m"
      using scanLoop_closed by blast
    from isRunAt_unique[OF assms(1) m(1)] m assms(2) show False by auto
  qed
qed

text \<open>
  The claim C8 as stated fails on a backtick followed by two kanji: the run at 0 has no
  closing run, no range is returned, and the kanji at 1 to 3 hit no code span.
\<close>

theorem unterminated_opener_counterexample:
  "isRunAt [0x60, 0x6F22, 0x5B57] 0 1 \<and>
   \<not> isRunAt [0x60, 0x6F22, 0x5B57] 1 1 \<and> \<not> isRunAt [0x60, 0x6F22, 0x5B57] 2 1 \<and>
   inlineBacktickRanges [0x60, 0x6F22, 0x5B57] = [] \<and>
   \<not> hitsCode (inlineBacktickRanges [0x60, 0x6F22, 0x5B57]) 1 3"
  by code_simp

text \<open>
  On the line \<open>`a` ``\<close> followed by two kanji, the run of two backticks at 4 is
  unterminated, and the only range is the closed span before it.
\<close>

theorem unterminated_opener_witness:
  "isRunAt open_code_line 4 2 \<and> inlineBacktickRanges open_code_line = [(0, 3)] \<and>
   list_all (\<lambda>r. fst r \<noteq> 4) (inlineBacktickRanges open_code_line)"
proof -
  have run: "isRunAt open_code_line 4 2" by code_simp
  have none: "\<forall>c. 4 + 2 \<le> c \<longrightarrow> \<not> isRunAt open_code_line c 2"
  proof (intro allI impI)
    fix c :: nat assume "4 + 2 \<le> c"
    then have "c = 6 \<or> 8 < c + 2" by arith
    then show "\<not> isRunAt open_code_line c 2"
    proof
      assume "c = 6"
      then show ?thesis by (simp add: isRunAt_def open_code_line_def backtick_def)
    next
      assume "8 < c + 2"
      then show ?thesis by (simp add: isRunAt_def open_code_line_def)
    qed
  qed
  have val: "inlineBacktickRanges open_code_line = [(0, 3)]" by code_simp
  from unterminated_opener_opens_no_span[OF run none] run val show ?thesis
    by (simp add: list_all_iff)
qed

text \<open>
  Claim C9: an update in which only the composition state changed makes the plugin
  recompute its decorations.

  In \<open>update\<close> the test \<open>u.view.composing !== this.view.composing\<close> reads the same field of
  the same view twice, since the update a plugin receives is for its own view
  (\<open>pluginUpdate_same_view\<close>); so a change of the composition state alone never triggers
  a rebuild. Here the composition starts with the caret before the two kanji: the
  decoration at 1 to 3 stays, while a rebuild would drop it.
\<close>

theorem composition_change_alone_keeps_decorations:
  "pluginCreate getManualRegex getAutoRegex Curly view_before 0 = Inr plugin_before \<and>
   composing (view_before 0) \<noteq> composing (view_composing 0) \<and>
   pluginUpdate getManualRegex getAutoRegex Curly view_composing plugin_before composition_update =
     Inr plugin_before \<and>
   buildDecorations getManualRegex getAutoRegex (view_composing 0) Curly = Inr []"
  by code_simp

text \<open>
  Claim C10, as amended: every text node that the engine processes has no \<open>ruby\<close> element
  among its ancestors, and no \<open>code\<close>, \<open>pre\<close>, \<open>script\<close>, \<open>style\<close> or \<open>ruby\<close> element from the
  selected block that contains it down to the node; so a text inside an existing
  annotation is never processed again and no nested annotation arises. (The claim as
  stated also exempts every text inside \<open>code\<close> or \<open>pre\<close>; an element of these kinds above
  the selected block is not looked at.)

  A text node reaches \<open>convertFurigana\<close> only through \<open>collectTextNodes\<close>, called on an
  element. The first part holds for that call on any element of any DOM, whatever its
  ancestors, and so for a block that is scanned after an enclosing block was rewritten; the
  second part is the same for the blocks of the DOM that the postprocessor receives.
\<close>

theorem processed_text_outside_annotations:
  "((a, v) \<in> set (collectTextNodes anc (Element tag children) []) \<longrightarrow>
      ''ruby'' \<notin> set a \<and>
      (\<exists>below. a = below @ anc \<and> below \<noteq> [] \<and> (\<forall>t \<in> set below. \<not> isSkippableElement t))) \<and>
   ((a, v) \<in> set (readingModePostprocessor ga app settings el path) \<longrightarrow>
      ''ruby'' \<notin> set a \<and>
      (\<exists>anc blk below. (anc, blk) \<in> set (querySelectorAll [] el) \<and> a = below @ anc \<and>
         below \<noteq> [] \<and> (\<forall>t \<in> set below. \<not> isSkippableElement t)))"
proof (rule conjI; rule impI)
  assume "(a, v) \<in> set (collectTextNodes anc (Element tag children) [])"
  from collect_mem[OF this]
  show "''ruby'' \<notin> set a \<and>
      (\<exists>below. a = below @ anc \<and> below \<noteq> [] \<and> (\<forall>t \<in> set below. \<not> isSkippableElement t))"
    by auto
next
  assume "(a, v) \<in> set (readingModePostprocessor ga app settings el path)"
  then obtain anc blk where blk: "(anc, blk) \<in> set (querySelectorAll [] el)"
    and mem: "(a, v) \<in> set (collectTextNodes anc blk [])"
    by (auto simp: readingModePostprocessor_def processBlock_def Let_def split: if_splits)
  from querySelectorAll_elements[OF blk] have el: "isElement blk" .
  from collect_mem[OF mem] el blk
  show "''ruby'' \<notin> set a \<and>
      (\<exists>anc blk below. (anc, blk) \<in> set (querySelectorAll [] el) \<and> a = below @ anc \<and>
         below \<noteq> [] \<and> (\<forall>t \<in> set below. \<not> isSkippableElement t))"
    by blast
qed

text \<open>
  The claim C10 as stated fails on a paragraph inside a \<open>pre\<close> element: the paragraph is
  a selected block, it is neither skippable nor inside a \<open>ruby\<close>, and its text is collected.
\<close>

theorem text_inside_pre_counterexample:
  "readingModePostprocessor getAutoRegex no_app all_on nested_pre ''note.md'' =
     [([''p'', ''pre'', ''div''], kanji_word)] \<and>
   isSkippableElement ''pre''"
  by code_simp

text \<open>
  A paragraph that already holds a \<open>ruby\<close> element and a \<open>code\<close> element: only the text
  outside both is processed.
\<close>

theorem processed_text_witness:
  "readingModePostprocessor getAutoRegex no_app all_on annotated_dom ''note.md'' =
     [([''p'', ''div''], today_text)] \<and>
   ''ruby'' \<notin> set [''p'', ''div'']"
proof -
  have val: "readingModePostprocessor getAutoRegex no_app all_on annotated_dom ''note.md'' =
     [([''p'', ''div''], today_text)]" by code_simp
  then have "([''p'', ''div''], today_text) \<in>
      set (readingModePostprocessor getAutoRegex no_app all_on annotated_dom ''note.md'')"
    by simp
  with processed_text_outside_annotations[of "[''p'', ''div'']" today_text _ _ _ getAutoRegex
      no_app all_on annotated_dom "''note.md''"] val
  show ?thesis by blast
qed

end
